theory Spec2Isabelle
  imports Main
begin

section \<open>Python values used by both pipelines\<close>

text \<open>
  A Python \<open>str\<close> is a sequence of Unicode code points and \<open>len\<close> counts code points,
  so a string is modelled as a list of code-point numbers. \<open>u\<close> turns an ASCII literal
  into such a list.
\<close>

type_synonym py_str = "nat list"

definition u :: "string \<Rightarrow> py_str" where
  "u s = map of_char s"

text \<open>The exceptions of the model. \<open>ServiceError\<close> is the plain \<open>Exception\<close> that the
  code raises itself on a failed request.\<close>

datatype error =
    IndexError | KeyError | ValueError | TypeError | OSError
  | UnicodeDecodeError | RecursionError | RequestError | ServiceError

text \<open>
  The characters that \<open>str.strip\<close> and \<open>str.lstrip\<close> remove when called without an
  argument (the code points for which \<open>str.isspace\<close> holds).
\<close>

definition is_space :: "nat \<Rightarrow> bool" where
  "is_space c \<longleftrightarrow>
     c \<in> {9, 10, 11, 12, 13, 28, 29, 30, 31, 32, 133, 160, 5760, 8232, 8233, 8239, 8287, 12288}
     \<or> (8192 \<le> c \<and> c \<le> 8202)"

definition lstrip :: "py_str \<Rightarrow> py_str" where
  "lstrip s = dropWhile is_space s"

definition rstrip :: "py_str \<Rightarrow> py_str" where
  "rstrip s = rev (dropWhile is_space (rev s))"

definition strip :: "py_str \<Rightarrow> py_str" where
  "strip s = rstrip (lstrip s)"

text \<open>
  Slicing \<open>s[:k]\<close> and \<open>s[k:]\<close> with an arbitrary integer bound: a negative bound
  counts from the end, and a bound outside the string is clamped.
\<close>

definition slice_bound :: "int \<Rightarrow> nat \<Rightarrow> nat" where
  "slice_bound k n = (if k < 0 then nat (max 0 (int n + k)) else min (nat k) n)"

definition slice_to :: "py_str \<Rightarrow> int \<Rightarrow> py_str" where
  "slice_to s k = take (slice_bound k (length s)) s"

definition slice_from :: "py_str \<Rightarrow> int \<Rightarrow> py_str" where
  "slice_from s k = drop (slice_bound k (length s)) s"

text \<open>Indexing \<open>s[i]\<close>: negative indices count from the end, out of range raises.\<close>

definition getitem :: "py_str \<Rightarrow> int \<Rightarrow> error + nat" where
  "getitem s i =
     (let n = int (length s); j = (if i < 0 then n + i else i)
      in if 0 \<le> j \<and> j < n then Inr (s ! nat j) else Inl IndexError)"

text \<open>\<open>range(start, stop, -1)\<close> as the list of its values.\<close>

definition range_down :: "int \<Rightarrow> int \<Rightarrow> int list" where
  "range_down start stop = map (\<lambda>k. start - int k) [0..<nat (start - stop)]"

text \<open>\<open>sub in s\<close> for strings.\<close>

fun contains :: "py_str \<Rightarrow> py_str \<Rightarrow> bool" where
  "contains [] sub = (sub = [])"
| "contains (c # s) sub = (take (length sub) (c # s) = sub \<or> contains s sub)"

section \<open>Text chunker: \<open>split_text\<close> in \<open>audio_to_notion.py\<close>\<close>

text \<open>
  The inner \<open>for\<close> loop: scan the indices in the given order, and stop at the first one
  that holds sentence punctuation or a blank; \<open>split_point\<close> keeps its initial value
  when the loop runs to its end.
\<close>

fun find_split :: "py_str \<Rightarrow> int list \<Rightarrow> int \<Rightarrow> error + int" where
  "find_split text [] split_point = Inr split_point"
| "find_split text (i # rest) split_point =
     (case getitem text i of
        Inl e \<Rightarrow> Inl e
      | Inr c \<Rightarrow>
          if c = 46 \<or> c = 33 \<or> c = 63 then Inr (i + 1)
          else if c = 32 then Inr (i + 1)
          else find_split text rest split_point)"

text \<open>
  The \<open>while text:\<close> loop. It need not end (a maximum length of zero never shortens
  the text), so it is a partial function: \<open>None\<close> stands for a loop that runs forever.
\<close>

partial_function (option) split_loop ::
  "int \<Rightarrow> py_str \<Rightarrow> py_str list \<Rightarrow> (error + py_str list) option" where
  "split_loop max_length text chunks =
     (if text = [] then Some (Inr chunks)
      else if int (length text) \<le> max_length then Some (Inr (chunks @ [text]))
      else
        (case find_split text (range_down max_length (max 0 (max_length - 100))) max_length of
           Inl e \<Rightarrow> Some (Inl e)
         | Inr split_point \<Rightarrow>
             split_loop max_length (lstrip (slice_from text split_point))
               (chunks @ [slice_to text split_point])))"

declare split_loop.simps [code]

definition split_text :: "py_str \<Rightarrow> int \<Rightarrow> (error + py_str list) option" where
  "split_text text max_length =
     (if int (length text) \<le> max_length then Some (Inr [text])
      else split_loop max_length text [])"

text \<open>
  A block that was produced after a split starts with a character that \<open>lstrip\<close> keeps.
\<close>

definition starts_unspaced :: "py_str \<Rightarrow> bool" where
  "starts_unspaced b \<longleftrightarrow> b \<noteq> [] \<and> \<not> is_space (hd b)"

section \<open>Audio pipeline: \<open>AudioToNotionProcessor\<close> in \<open>audio_to_notion.py\<close>\<close>

subsection \<open>Files, requests and the outside world\<close>

type_synonym bytes = "nat list"

text \<open>A \<open>Path\<close> object, as far as the pipeline looks at it: \<open>str(file_path)\<close> and
  \<open>file_path.name\<close>.\<close>

record file_path =
  path_str :: py_str
  path_name :: py_str

datatype block = Heading2 py_str | Paragraph py_str

record page_data =
  page_title :: py_str
  page_children :: "block list"

record chat_request =
  system_content :: py_str
  user_content :: py_str
  max_tokens :: int

datatype request =
    Transcribe py_str
  | ChatCompletion chat_request
  | CreatePage page_data
  | SaveState "py_str \<rightharpoonup> py_str"

text \<open>
  The outcome of \<open>requests.post\<close> as the caller reads it: the request raises, or there
  is a response with a status code and the one string the caller takes out of its JSON
  body (\<open>None\<close> when taking it out raises).
\<close>

datatype http_reply = Raises | Response int "py_str option"

text \<open>The outcome of opening and reading the state file.\<close>

text \<open>
  The outcome of \<open>open(self.state_file, 'r')\<close> and of reading the file as text: the
  file is gone, another exception (\<open>UnicodeDecodeError\<close> for bytes that are no text in
  the encoding of the platform, \<open>OSError\<close> for a file that cannot be opened), or the
  text of the file.
\<close>

datatype file_read = FileNotFound | ReadFails error | FileText py_str

text \<open>
  A value that \<open>json.load\<close> returns. A number is kept as it is written; an object is
  a dictionary with strings as keys.
\<close>

datatype json_value =
    JNull
  | JBool bool
  | JNumber py_str
  | JString py_str
  | JArray "json_value list"
  | JObject "py_str \<rightharpoonup> json_value"

text \<open>
  The outcome of \<open>json.load\<close> on a text: \<open>JSONDecodeError\<close> for a text it rejects,
  another exception (\<open>RecursionError\<close> for a text that is nested too deeply), or the
  value of the text, which need not be a dictionary.
\<close>

datatype json_result = JSONDecodeError | JSONRaises error | JSONValue json_value

text \<open>
  What the processor cannot compute itself. Every answer may depend on the requests
  made so far. \<open>transcribe_audio\<close> is the outcome of \<open>_transcribe_audio\<close> for a file,
  \<open>md5_hexdigest\<close> the digest of all bytes given to \<open>hashlib.md5\<close>, \<open>json_load\<close>
  the outcome of \<open>json.load\<close> on the text of the state file.
\<close>

record audio_env =
  getenv :: "py_str \<Rightarrow> py_str option"
  state_exists :: "request list \<Rightarrow> bool"
  read_state :: "request list \<Rightarrow> file_read"
  json_load :: "py_str \<Rightarrow> json_result"
  write_state :: "request list \<Rightarrow> (py_str \<rightharpoonup> py_str) \<Rightarrow> error option"
  folder_exists :: "request list \<Rightarrow> bool"
  folder_glob :: "request list \<Rightarrow> file_path list"
  read_file :: "request list \<Rightarrow> py_str \<Rightarrow> error + bytes"
  md5_hexdigest :: "bytes \<Rightarrow> py_str"
  transcribe_audio :: "request list \<Rightarrow> py_str \<Rightarrow> error + py_str"
  openai_chat :: "request list \<Rightarrow> chat_request \<Rightarrow> http_reply"
  notion_pages :: "request list \<Rightarrow> page_data \<Rightarrow> http_reply"


text \<open>The state of a run of \<open>process_new_files\<close>: the mapping, the list
  \<open>created_pages\<close> and the requests made.\<close>

record run_state =
  files_done :: "py_str \<rightharpoonup> py_str"
  created_pages :: "py_str list"
  requests :: "request list"

subsection \<open>\<open>_load_state\<close> and \<open>__init__\<close>\<close>

text \<open>
  The \<open>except\<close> clause names \<open>JSONDecodeError\<close> and \<open>FileNotFoundError\<close> only: for
  these two the result is the empty dictionary, every other exception of opening,
  reading or decoding leaves \<open>_load_state\<close>, and a value that was decoded is returned
  as it is.
\<close>

definition load_state :: "audio_env \<Rightarrow> request list \<Rightarrow> error + json_value" where
  "load_state env log =
     (if state_exists env log then
        (case read_state env log of
           FileText t \<Rightarrow>
             (case json_load env t of
                JSONDecodeError \<Rightarrow> Inr (JObject Map.empty)
              | JSONRaises e \<Rightarrow> Inl e
              | JSONValue v \<Rightarrow> Inr v)
         | FileNotFound \<Rightarrow> Inr (JObject Map.empty)
         | ReadFails e \<Rightarrow> Inl e)
      else Inr (JObject Map.empty))"



subsection \<open>The file-change tracker\<close>

text \<open>\<open>iter(lambda: f.read(4096), b"")\<close>: the blocks of the file up to the first empty
  read.\<close>

function file_chunks :: "bytes \<Rightarrow> bytes list" where
  "file_chunks bs = (if bs = [] then [] else take 4096 bs # file_chunks (drop 4096 bs))"
  by pat_completeness auto
termination
  by (relation "measure length") auto

declare file_chunks.simps [simp del]

definition get_file_hash :: "audio_env \<Rightarrow> request list \<Rightarrow> file_path \<Rightarrow> error + py_str" where
  "get_file_hash env log p =
     (case read_file env log (path_str p) of
        Inl e \<Rightarrow> Inl e
      | Inr bs \<Rightarrow> Inr (md5_hexdigest env (foldl (@) [] (file_chunks bs))))"

definition get_mp3_files :: "audio_env \<Rightarrow> request list \<Rightarrow> file_path list" where
  "get_mp3_files env log = (if folder_exists env log then folder_glob env log else [])"

fun new_files_loop ::
  "audio_env \<Rightarrow> request list \<Rightarrow> (py_str \<rightharpoonup> py_str) \<Rightarrow> file_path list \<Rightarrow> file_path list
     \<Rightarrow> error + file_path list" where
  "new_files_loop env log done [] new_files = Inr new_files"
| "new_files_loop env log done (p # ps) new_files =
     (case get_file_hash env log p of
        Inl e \<Rightarrow> Inl e
      | Inr file_hash \<Rightarrow>
          if done (path_str p) = None \<or> done (path_str p) \<noteq> Some file_hash
          then new_files_loop env log done ps (new_files @ [p])
          else new_files_loop env log done ps new_files)"

definition get_new_files ::
  "audio_env \<Rightarrow> request list \<Rightarrow> (py_str \<rightharpoonup> py_str) \<Rightarrow> error + file_path list" where
  "get_new_files env log done = new_files_loop env log done (get_mp3_files env log) []"





subsection \<open>\<open>_summarize_text\<close> and \<open>_create_notion_page\<close>\<close>

text \<open>What a caller makes of a reply that must have status 200: the string it takes
  out, or the exception.\<close>

definition reply_value :: "http_reply \<Rightarrow> error + py_str" where
  "reply_value r =
     (case r of
        Raises \<Rightarrow> Inl RequestError
      | Response status v \<Rightarrow>
          if status = 200 then (case v of None \<Rightarrow> Inl KeyError | Some s \<Rightarrow> Inr s)
          else Inl ServiceError)"

definition summary_request :: "py_str \<Rightarrow> chat_request" where
  "summary_request t =
     \<lparr>system_content = u ''You are a helpful assistant that creates concise, informative summaries of audio transcriptions. Focus on key points, main ideas, and important details.'',
      user_content = u ''Please provide a comprehensive summary of the following audio transcription:''
        @ [10, 10] @ t,
      max_tokens = 500\<rparr>"

definition summarize_text ::
  "audio_env \<Rightarrow> request list \<Rightarrow> py_str \<Rightarrow> (error + py_str) \<times> request list" where
  "summarize_text env log t =
     (reply_value (openai_chat env log (summary_request t)),
      log @ [ChatCompletion (summary_request t)])"

definition title_request :: "py_str \<Rightarrow> py_str \<Rightarrow> chat_request" where
  "title_request file_name transcript =
     \<lparr>system_content = u ''You are a helpful assistant that generates concise, descriptive titles for audio recordings. Do not use quotation marks. Return only the title text.'',
      user_content = u ''Generate a concise, descriptive title (3-8 words) for this audio recording. Do not use quotation marks. Return only the title text. Audio filename: ''
        @ file_name @ [10, 10] @ u ''Transcript preview: '' @ slice_to transcript 200 @ u ''...'',
      max_tokens = 50\<rparr>"

text \<open>The \<open>try\<close> block around the title request: any exception in it, and any status
  other than 200, leaves the file name as the title.\<close>

definition notion_title :: "http_reply \<Rightarrow> py_str \<Rightarrow> py_str" where
  "notion_title r file_name =
     (case r of
        Raises \<Rightarrow> file_name
      | Response status content \<Rightarrow>
          if status = 200 then
            (case content of
               None \<Rightarrow> file_name
             | Some c \<Rightarrow>
                 (let ai_title = strip (filter (\<lambda>x. x \<noteq> 39) (filter (\<lambda>x. x \<noteq> 34) (strip c)))
                  in (if ai_title = [] then u ''Untitled'' else ai_title) @ u '' - '' @ file_name))
          else file_name)"

definition page_children_of :: "py_str \<Rightarrow> py_str list \<Rightarrow> block list" where
  "page_children_of summary transcript_chunks =
     [Heading2 (u ''Summary''), Paragraph summary, Heading2 (u ''Full Transcript'')]
     @ map Paragraph transcript_chunks"

definition create_notion_page ::
  "audio_env \<Rightarrow> request list \<Rightarrow> py_str \<Rightarrow> py_str \<Rightarrow> py_str
     \<Rightarrow> ((error + py_str) \<times> request list) option" where
  "create_notion_page env log file_name transcript summary =
     (let title = notion_title (openai_chat env log (title_request file_name transcript)) file_name;
          log1 = log @ [ChatCompletion (title_request file_name transcript)]
      in case split_text transcript 1900 of
           None \<Rightarrow> None
         | Some (Inl e) \<Rightarrow> Some (Inl e, log1)
         | Some (Inr transcript_chunks) \<Rightarrow>
             (let page = \<lparr>page_title = title,
                          page_children = page_children_of summary transcript_chunks\<rparr>
              in Some (reply_value (notion_pages env log1 page), log1 @ [CreatePage page])))"

subsection \<open>\<open>process_new_files\<close>\<close>

text \<open>The first three statements of the \<open>try\<close> block, for one file: transcription,
  summary and page creation. The result is the page id, or the exception of the first
  statement that raises.\<close>

definition page_attempt ::
  "audio_env \<Rightarrow> request list \<Rightarrow> file_path \<Rightarrow> ((error + py_str) \<times> request list) option" where
  "page_attempt env log p =
     (let log1 = log @ [Transcribe (path_str p)] in
      case transcribe_audio env log (path_str p) of
        Inl e \<Rightarrow> Some (Inl e, log1)
      | Inr transcript \<Rightarrow>
          (case summarize_text env log1 transcript of
             (Inl e, log2) \<Rightarrow> Some (Inl e, log2)
           | (Inr summary, log2) \<Rightarrow>
               create_notion_page env log2 (path_name p) transcript summary))"

text \<open>One round of the loop: the \<open>try\<close> block, whose \<open>except Exception\<close> branch
  prints and goes on to the next file. After the page is created its id is appended
  and the hash of the file is stored; reading the file for the hash can raise as well.
  \<open>None\<close> stands for a round that never ends.\<close>

definition process_file :: "audio_env \<Rightarrow> run_state \<Rightarrow> file_path \<Rightarrow> run_state option" where
  "process_file env st p =
     (case page_attempt env (requests st) p of
        None \<Rightarrow> None
      | Some (Inl e, log') \<Rightarrow> Some (st\<lparr>requests := log'\<rparr>)
      | Some (Inr page_id, log') \<Rightarrow>
          (case get_file_hash env log' p of
             Inl e \<Rightarrow>
               Some (st\<lparr>created_pages := created_pages st @ [page_id], requests := log'\<rparr>)
           | Inr h \<Rightarrow>
               Some (st\<lparr>files_done := (files_done st)(path_str p \<mapsto> h),
                        created_pages := created_pages st @ [page_id],
                        requests := log'\<rparr>)))"

fun process_loop :: "audio_env \<Rightarrow> run_state \<Rightarrow> file_path list \<Rightarrow> run_state option" where
  "process_loop env st [] = Some st"
| "process_loop env st (p # ps) =
     (case process_file env st p of
        None \<Rightarrow> None
      | Some st' \<Rightarrow> process_loop env st' ps)"

text \<open>\<open>process_new_files\<close> on a processor whose \<open>processed_files\<close> is a path-to-hash
  mapping, the dictionary of the mapping \<open>done\<close>, after the requests
  \<open>log\<close>: the page ids it returns or the exception it raises, and the state it leaves.
  Without new files it returns at once and saves nothing.\<close>

definition process_new_files ::
  "audio_env \<Rightarrow> request list \<Rightarrow> (py_str \<rightharpoonup> py_str)
     \<Rightarrow> ((error + py_str list) \<times> run_state) option" where
  "process_new_files env log done =
     (let st = \<lparr>files_done = done, created_pages = [], requests = log\<rparr> in
      case get_new_files env log done of
        Inl e \<Rightarrow> Some (Inl e, st)
      | Inr new_files \<Rightarrow>
          if new_files = [] then Some (Inr [], st)
          else
            (case process_loop env st new_files of
               None \<Rightarrow> None
             | Some st' \<Rightarrow>
                 (let saved = st'\<lparr>requests := requests st' @ [SaveState (files_done st')]\<rparr>
                  in case write_state env (requests st') (files_done st') of
                       Some e \<Rightarrow> Some (Inl e, saved)
                     | None \<Rightarrow> Some (Inr (created_pages st'), saved))))"

section \<open>Annotation harvester: \<open>zotero_to_anki.py\<close>\<close>

subsection \<open>String helpers of the standard library\<close>

text \<open>The line boundaries of \<open>str.splitlines\<close>; a carriage return followed by a line
  feed counts as one boundary, and no empty last line is produced.\<close>

definition is_linebreak :: "nat \<Rightarrow> bool" where
  "is_linebreak c \<longleftrightarrow> c \<in> {10, 11, 12, 13, 28, 29, 30, 133, 8232, 8233}"

fun splitlines_from :: "py_str \<Rightarrow> py_str \<Rightarrow> py_str list" where
  "splitlines_from line [] = (if line = [] then [] else [line])"
| "splitlines_from line [c] =
     (if is_linebreak c then [line] else [line @ [c]])"
| "splitlines_from line (c # d # rest) =
     (if c = 13 \<and> d = 10 then line # splitlines_from [] rest
      else if is_linebreak c then line # splitlines_from [] (d # rest)
      else splitlines_from (line @ [c]) (d # rest))"

definition splitlines :: "py_str \<Rightarrow> py_str list" where
  "splitlines s = splitlines_from [] s"

definition startswith :: "py_str \<Rightarrow> py_str \<Rightarrow> bool" where
  "startswith s p \<longleftrightarrow> take (length p) s = p"

text \<open>\<open>sep.join(xs)\<close>.\<close>

fun join :: "py_str \<Rightarrow> py_str list \<Rightarrow> py_str" where
  "join sep [] = []"
| "join sep [x] = x"
| "join sep (x # y # xs) = x @ sep @ join sep (y # xs)"

subsection \<open>\<open>parse_cards\<close>\<close>

text \<open>
  The loop over the lines of the reply, with the loop variables \<open>q\<close>, \<open>a\<close> and \<open>out\<close>
  as the state. An empty string is false in a Python condition.
\<close>

fun parse_lines ::
  "py_str list \<Rightarrow> py_str \<times> py_str \<times> (py_str \<times> py_str) list
     \<Rightarrow> py_str \<times> py_str \<times> (py_str \<times> py_str) list" where
  "parse_lines [] st = st"
| "parse_lines (raw # lns) (q, a, out) =
     (let ln = strip raw in
      if startswith ln (u ''Q:'') then
        parse_lines lns
          (strip (slice_from ln 2), [], if q \<noteq> [] \<and> a \<noteq> [] then out @ [(q, a)] else out)
      else if startswith ln (u ''A:'') then
        parse_lines lns (q, strip (slice_from ln 2), out)
      else parse_lines lns (q, a, out))"

definition parse_cards :: "py_str \<Rightarrow> (py_str \<times> py_str) list" where
  "parse_cards reply =
     (case parse_lines (splitlines reply) ([], [], []) of
        (q, a, out) \<Rightarrow> if q \<noteq> [] \<and> a \<noteq> [] then out @ [(q, a)] else out)"

subsection \<open>Question blocks, as the specification describes the reply\<close>

text \<open>
  A reading of the reply that does not follow the loop: every stripped line that starts
  with \<open>Q:\<close> opens a block, and the block owns the \<open>A:\<close> lines up to the next
  \<open>Q:\<close> line.
\<close>

definition is_q :: "py_str \<Rightarrow> bool" where
  "is_q ln \<longleftrightarrow> startswith ln (u ''Q:'')"

definition is_a :: "py_str \<Rightarrow> bool" where
  "is_a ln \<longleftrightarrow> startswith ln (u ''A:'')"

definition line_body :: "py_str \<Rightarrow> py_str" where
  "line_body ln = strip (slice_from ln 2)"

fun q_blocks :: "py_str list \<Rightarrow> (py_str \<times> py_str list) list" where
  "q_blocks [] = []"
| "q_blocks (ln # lns) =
     (if is_q ln then (ln, filter is_a (takeWhile (\<lambda>l. \<not> is_q l) lns)) # q_blocks lns
      else q_blocks lns)"

text \<open>The blocks the specification counts: a \<open>Q:\<close> line with at least one \<open>A:\<close> line
  behind it.\<close>

definition answered_blocks :: "py_str \<Rightarrow> (py_str \<times> py_str list) list" where
  "answered_blocks reply =
     filter (\<lambda>(ql, als). als \<noteq> []) (q_blocks (map strip (splitlines reply)))"

text \<open>The card of a block: the question text and the text of the block's last \<open>A:\<close>
  line, when neither is empty.\<close>

definition block_card :: "py_str \<times> py_str list \<Rightarrow> (py_str \<times> py_str) list" where
  "block_card b =
     (case b of (ql, als) \<Rightarrow>
        if line_body ql \<noteq> [] \<and> als \<noteq> [] \<and> line_body (last als) \<noteq> []
        then [(line_body ql, line_body (last als))] else [])"

definition block_cards :: "py_str \<Rightarrow> (py_str \<times> py_str) list" where
  "block_cards reply = concat (map block_card (q_blocks (map strip (splitlines reply))))"

text \<open>The two loop variables \<open>q\<close> and \<open>a\<close> while a block is still open: the card
  they will give once the lines \<open>lns\<close> that are still to come have been read.\<close>

definition open_card :: "py_str \<Rightarrow> py_str \<Rightarrow> py_str list \<Rightarrow> (py_str \<times> py_str) list" where
  "open_card q a lns =
     (let als = filter is_a (takeWhile (\<lambda>l. \<not> is_q l) lns);
          a' = (if als = [] then a else line_body (last als))
      in if q \<noteq> [] \<and> a' \<noteq> [] then [(q, a')] else [])"

definition finish ::
  "py_str \<times> py_str \<times> (py_str \<times> py_str) list \<Rightarrow> (py_str \<times> py_str) list" where
  "finish st = (case st of (q, a, out) \<Rightarrow> if q \<noteq> [] \<and> a \<noteq> [] then out @ [(q, a)] else out)"

subsection \<open>Items, and the calls to the flashcard application and the language model\<close>

record creator =
  last_name :: "py_str option"

record item =
  item_key :: py_str
  item_type :: py_str
  parent_item :: "py_str option"
  note_html :: py_str
  creators :: "creator list"
  item_date :: "py_str option"

record collection =
  coll_key :: py_str
  coll_name :: py_str

datatype call =
    DeckNames
  | CreateDeck py_str
  | GenerateCards py_str
  | AddNote py_str py_str py_str

text \<open>
  What the harvester cannot compute itself: the answers of the reference manager, of
  \<open>html2text\<close> and \<open>str.lower\<close>, and of the two services. A service answers a call
  after the calls made so far; \<open>anki_post\<close> gives the exception of a request that
  fails, \<open>chat_content\<close> the reply text of \<open>generate_cards\<close> or its exception.
\<close>

record harvester_env =
  all_collections :: "error + collection list"
  fetch_items :: "py_str \<Rightarrow> error + item list"
  h2m_handle :: "py_str \<Rightarrow> py_str"
  str_lower :: "py_str \<Rightarrow> py_str"
  deck_names :: "call list \<Rightarrow> error + py_str list"
  anki_post :: "call list \<Rightarrow> call \<Rightarrow> error option"
  chat_content :: "call list \<Rightarrow> py_str \<Rightarrow> error + py_str"

record pipeline_state =
  decks_exist :: "py_str set"
  calls :: "call list"

subsection \<open>\<open>top_level_key\<close>\<close>

text \<open>The dictionary comprehension \<open>{i["key"]: i for i in items}\<close>: a later item
  replaces an earlier one with the same key.\<close>

definition index_by_key :: "item list \<Rightarrow> (py_str \<rightharpoonup> item)" where
  "index_by_key items = foldl (\<lambda>m i. m(item_key i \<mapsto> i)) Map.empty items"

text \<open>\<open>itm and itm["data"].get("parentItem")\<close>.\<close>

definition parent_of :: "(py_str \<rightharpoonup> item) \<Rightarrow> py_str \<Rightarrow> py_str option" where
  "parent_of items_by_key k =
     (case items_by_key k of None \<Rightarrow> None | Some itm \<Rightarrow> parent_item itm)"

text \<open>The \<open>while True\<close> loop; \<open>None\<close> stands for a walk that never returns.\<close>

partial_function (option) top_level_key :: "(py_str \<rightharpoonup> item) \<Rightarrow> py_str \<Rightarrow> py_str option" where
  "top_level_key items_by_key k =
     (case parent_of items_by_key k of
        None \<Rightarrow> Some k
      | Some parent \<Rightarrow> if parent = [] then Some k else top_level_key items_by_key parent)"

declare top_level_key.simps [code]

text \<open>A key at which the walk stops, the links the walk follows, and a list of keys
  each of which links to the next.\<close>

definition top_level :: "(py_str \<rightharpoonup> item) \<Rightarrow> py_str \<Rightarrow> bool" where
  "top_level items_by_key k \<longleftrightarrow>
     (case parent_of items_by_key k of None \<Rightarrow> True | Some parent \<Rightarrow> parent = [])"

definition parent_links :: "(py_str \<rightharpoonup> item) \<Rightarrow> (py_str \<times> py_str) set" where
  "parent_links items_by_key = {(p, k). parent_of items_by_key k = Some p \<and> p \<noteq> []}"

fun parent_chain :: "(py_str \<rightharpoonup> item) \<Rightarrow> py_str list \<Rightarrow> bool" where
  "parent_chain items_by_key (k # p # ks) =
     (parent_of items_by_key k = Some p \<and> p \<noteq> [] \<and> parent_chain items_by_key (p # ks))"
| "parent_chain items_by_key ks = True"

subsection \<open>\<open>run_pipeline\<close>\<close>

text \<open>\<open>annos.setdefault(top_key, []).append(md)\<close> on a dictionary that keeps the order
  in which its keys were added.\<close>

fun setdefault_append ::
  "(py_str \<times> py_str list) list \<Rightarrow> py_str \<Rightarrow> py_str \<Rightarrow> (py_str \<times> py_str list) list" where
  "setdefault_append [] k v = [(k, [v])]"
| "setdefault_append ((k', vs) # rest) k v =
     (if k' = k then (k', vs @ [v]) # rest else (k', vs) # setdefault_append rest k v)"

text \<open>The Markdown text of a note, and the test for the word \<open>annotations\<close> in the
  first 80 characters of its lower-case form.\<close>

definition note_md :: "harvester_env \<Rightarrow> item \<Rightarrow> py_str" where
  "note_md env n = strip (h2m_handle env (note_html n))"

definition annotation_head :: "harvester_env \<Rightarrow> py_str \<Rightarrow> bool" where
  "annotation_head env md \<longleftrightarrow> contains (slice_to (str_lower env md) 80) (u ''annotations'')"

text \<open>The loop over the notes. A note without a \<open>parentItem\<close> entry raises
  \<open>KeyError\<close>.\<close>

fun bucket_notes ::
  "harvester_env \<Rightarrow> (py_str \<rightharpoonup> item) \<Rightarrow> item list \<Rightarrow> (py_str \<times> py_str list) list
     \<Rightarrow> (error + (py_str \<times> py_str list) list) option" where
  "bucket_notes env items_by_key [] annos = Some (Inr annos)"
| "bucket_notes env items_by_key (n # notes) annos =
     (let md = note_md env n
      in if \<not> annotation_head env md
         then bucket_notes env items_by_key notes annos
         else
           (case parent_item n of
              None \<Rightarrow> Some (Inl KeyError)
            | Some parent \<Rightarrow>
                (case top_level_key items_by_key parent of
                   None \<Rightarrow> None
                 | Some top_key \<Rightarrow>
                     bucket_notes env items_by_key notes (setdefault_append annos top_key md))))"

definition papers_by_id :: "item list \<Rightarrow> (py_str \<rightharpoonup> item)" where
  "papers_by_id items =
     index_by_key
       (filter (\<lambda>i. item_type i \<in> {u ''journalArticle'', u ''conferencePaper'', u ''report''})
          items)"

definition existing_decks :: "harvester_env \<Rightarrow> call list \<Rightarrow> error + py_str set" where
  "existing_decks env log =
     (case deck_names env log of Inl e \<Rightarrow> Inl e | Inr names \<Rightarrow> Inr (set names))"

text \<open>The deck name of a paper whose first creator is \<open>c\<close>.\<close>

definition deck_for :: "py_str \<Rightarrow> item \<Rightarrow> creator \<Rightarrow> py_str" where
  "deck_for parent_deck paper c =
     (let author = (case last_name c of None \<Rightarrow> u ''Unknown'' | Some n \<Rightarrow> n);
          y = slice_to (case item_date paper of None \<Rightarrow> [] | Some d \<Rightarrow> d) 4;
          year = (if y = [] then u ''n.d.'' else y)
      in parent_deck @ u ''::'' @ author @ u '' et al., '' @ year)"

text \<open>\<open>for q, a in cards: push_card(deck, q, a)\<close>. A call is recorded when it is made,
  also when the request then raises.\<close>

fun push_cards ::
  "harvester_env \<Rightarrow> py_str \<Rightarrow> (py_str \<times> py_str) list \<Rightarrow> pipeline_state
     \<Rightarrow> error option \<times> pipeline_state" where
  "push_cards env deck [] st = (None, st)"
| "push_cards env deck ((q, a) # cards) st =
     (case anki_post env (calls st) (AddNote deck q a) of
        Some e \<Rightarrow> (Some e, st\<lparr>calls := calls st @ [AddNote deck q a]\<rparr>)
      | None \<Rightarrow> push_cards env deck cards (st\<lparr>calls := calls st @ [AddNote deck q a]\<rparr>))"

text \<open>One round of the loop over the groups: the exception that ends the run, if any,
  and the state after the round.\<close>

definition group_step ::
  "harvester_env \<Rightarrow> py_str \<Rightarrow> (py_str \<rightharpoonup> item) \<Rightarrow> pipeline_state
     \<Rightarrow> py_str \<times> py_str list \<Rightarrow> error option \<times> pipeline_state" where
  "group_step env parent_deck papers st g =
     (case g of (pid, txts) \<Rightarrow>
        (case papers pid of
           None \<Rightarrow> (None, st)
         | Some paper \<Rightarrow>
             (case creators paper of
                [] \<Rightarrow> (Some IndexError, st)
              | c # _ \<Rightarrow>
                  (let deck = deck_for parent_deck paper c in
                   if deck \<in> decks_exist st then (None, st)
                   else
                     (case anki_post env (calls st) (CreateDeck deck) of
                        Some e \<Rightarrow> (Some e, st\<lparr>calls := calls st @ [CreateDeck deck]\<rparr>)
                      | None \<Rightarrow>
                          (let st1 = \<lparr>decks_exist = insert deck (decks_exist st),
                                      calls = calls st @ [CreateDeck deck]\<rparr>;
                               notes_block = join [10, 10] txts;
                               st2 = st1\<lparr>calls := calls st1 @ [GenerateCards notes_block]\<rparr>
                           in case chat_content env (calls st1) notes_block of
                                Inl e \<Rightarrow> (Some e, st2)
                              | Inr reply \<Rightarrow> push_cards env deck (parse_cards reply) st2))))))"

fun group_loop ::
  "harvester_env \<Rightarrow> py_str \<Rightarrow> (py_str \<rightharpoonup> item) \<Rightarrow> pipeline_state
     \<Rightarrow> (py_str \<times> py_str list) list \<Rightarrow> error option \<times> pipeline_state" where
  "group_loop env parent_deck papers st [] = (None, st)"
| "group_loop env parent_deck papers st (g # gs) =
     (case group_step env parent_deck papers st g of
        (Some e, st') \<Rightarrow> (Some e, st')
      | (None, st') \<Rightarrow> group_loop env parent_deck papers st' gs)"

text \<open>
  \<open>run_pipeline\<close> for one collection name, started after the calls \<open>log\<close>: the
  exception that ends it, if any, and the calls made. A collection that is not found
  ends the run without an exception.
\<close>

definition run_pipeline ::
  "harvester_env \<Rightarrow> call list \<Rightarrow> py_str \<Rightarrow> (error option \<times> call list) option" where
  "run_pipeline env log collection_name =
     (let parent_deck = u ''CMU.49.007 Automated Literature Review::'' @ collection_name in
      case all_collections env of
        Inl e \<Rightarrow> Some (Some e, log)
      | Inr colls \<Rightarrow>
          (case filter (\<lambda>c. coll_name c = collection_name) colls of
             [] \<Rightarrow> Some (None, log)
           | c # _ \<Rightarrow>
               (case fetch_items env (coll_key c) of
                  Inl e \<Rightarrow> Some (Some e, log)
                | Inr items \<Rightarrow>
                    (case bucket_notes env (index_by_key items)
                            (filter (\<lambda>i. item_type i = u ''note'') items) [] of
                       None \<Rightarrow> None
                     | Some (Inl e) \<Rightarrow> Some (Some e, log)
                     | Some (Inr annos) \<Rightarrow>
                         (case existing_decks env log of
                            Inl e \<Rightarrow> Some (Some e, log @ [DeckNames])
                          | Inr decks \<Rightarrow>
                              (case group_loop env parent_deck (papers_by_id items)
                                      \<lparr>decks_exist = decks, calls = log @ [DeckNames]\<rparr> annos of
                                 (e, st) \<Rightarrow> Some (e, calls st)))))))"

subsection \<open>Example data\<close>

text \<open>An item with the given key, type and parent reference, written by Doe in 2015,
  and an environment in which every request succeeds and the language model always
  gives the same reply.\<close>

definition demo_item :: "py_str \<Rightarrow> py_str \<Rightarrow> py_str option \<Rightarrow> item" where
  "demo_item k ty parent =
     \<lparr>item_key = k, item_type = ty, parent_item = parent,
      note_html = u ''annotations: a highlight'',
      creators = [\<lparr>last_name = Some (u ''Doe'')\<rparr>],
      item_date = Some (u ''2015-03-01'')\<rparr>"

definition demo_reply :: py_str where
  "demo_reply = u ''Q: What is X?'' @ [10] @ u ''A: It is Y.''"

definition demo_env :: harvester_env where
  "demo_env =
     \<lparr>all_collections = Inr [\<lparr>coll_key = u ''K1'', coll_name = u ''Lib''\<rparr>],
      fetch_items = (\<lambda>k. Inr []),
      h2m_handle = (\<lambda>s. s),
      str_lower = (\<lambda>s. s),
      deck_names = (\<lambda>log. Inr []),
      anki_post = (\<lambda>log c. None),
      chat_content = (\<lambda>log block. Inr demo_reply)\<rparr>"

text \<open>A note \<open>A\<close> under an attachment \<open>B\<close> under a paper \<open>C\<close>, and two items that
  name each other as parent.\<close>

definition demo_items :: "item list" where
  "demo_items =
     [demo_item (u ''A'') (u ''note'') (Some (u ''B'')),
      demo_item (u ''B'') (u ''attachment'') (Some (u ''C'')),
      demo_item (u ''C'') (u ''journalArticle'') None]"

definition cyclic_items :: "item list" where
  "cyclic_items =
     [demo_item (u ''A'') (u ''note'') (Some (u ''B'')),
      demo_item (u ''B'') (u ''note'') (Some (u ''A''))]"

text \<open>Two papers by the same author from the same year, and the state in which the loop
  over the groups starts when the flashcard application has no deck yet.\<close>

definition two_papers :: "item list" where
  "two_papers =
     [demo_item (u ''P1'') (u ''journalArticle'') None,
      demo_item (u ''P2'') (u ''report'') None]"

definition demo_start :: pipeline_state where
  "demo_start = \<lparr>decks_exist = {}, calls = [DeckNames]\<rparr>"

definition demo_deck :: py_str where
  "demo_deck = u ''Lib::Doe et al., 2015''"

subsection \<open>Reading the record of calls\<close>

text \<open>The calls made between two states, and the calls that push a card.\<close>

definition new_calls :: "pipeline_state \<Rightarrow> pipeline_state \<Rightarrow> call list" where
  "new_calls st st' = drop (length (calls st)) (calls st')"

definition is_push :: "call \<Rightarrow> bool" where
  "is_push c = (case c of AddNote d q a \<Rightarrow> True | _ \<Rightarrow> False)"

text \<open>An audio folder with two files and services that all succeed.\<close>

definition one_mp3 :: file_path where
  "one_mp3 = \<lparr>path_str = u ''/audio/one.mp3'', path_name = u ''one.mp3''\<rparr>"

definition two_mp3 :: file_path where
  "two_mp3 = \<lparr>path_str = u ''/audio/two.mp3'', path_name = u ''two.mp3''\<rparr>"


definition demo_audio_env :: audio_env where
  "demo_audio_env =
     \<lparr>getenv = (\<lambda>name. Some (u ''secret'')),
      state_exists = (\<lambda>log. False),
      read_state = (\<lambda>log. FileNotFound),
      json_load = (\<lambda>t. JSONDecodeError),
      write_state = (\<lambda>log m. None),
      folder_exists = (\<lambda>log. True),
      folder_glob = (\<lambda>log. [one_mp3, two_mp3]),
      read_file = (\<lambda>log s. if s = u ''/audio/one.mp3'' then Inr [1, 2, 3] else Inr [4, 5]),
      md5_hexdigest = (\<lambda>bs. map (\<lambda>b. b + 48) bs),
      transcribe_audio = (\<lambda>log s. Inr (u ''Hello world.'')),
      openai_chat = (\<lambda>log r. Response 200 (Some (u ''A greeting''))),
      notion_pages = (\<lambda>log page. Response 200 (Some (u ''page-1'')))\<rparr>"



definition fresh_run :: run_state where
  "fresh_run = \<lparr>files_done = Map.empty, created_pages = [], requests = []\<rparr>"

text \<open>The requests of a round for \<open>one.mp3\<close> in which every service answers.\<close>

definition demo_round :: "request list" where
  "demo_round =
     [Transcribe (u ''/audio/one.mp3''),
      ChatCompletion (summary_request (u ''Hello world.'')),
      ChatCompletion (title_request (u ''one.mp3'') (u ''Hello world.'')),
      CreatePage \<lparr>page_title = u ''A greeting - one.mp3'',
                  page_children = [Heading2 (u ''Summary''), Paragraph (u ''A greeting''),
                                   Heading2 (u ''Full Transcript''),
                                   Paragraph (u ''Hello world.'')]\<rparr>]"

section \<open>Properties of the text chunker\<close>

lemma range_down_rec:
  "range_down a b = (if b < a then a # range_down (a - 1) b else [])"
proof (cases "b < a")
  case True
  then have n: "nat (a - b) = Suc (nat (a - 1 - b))" by simp
  have "[0..<Suc (nat (a - 1 - b))] = 0 # map Suc [0..<nat (a - 1 - b)]"
    by (simp add: upt_conv_Cons map_Suc_upt del: upt_Suc)
  with True n show ?thesis
    by (simp add: range_down_def o_def del: upt_Suc)
next
  case False
  then show ?thesis by (simp add: range_down_def)
qed

lemma set_range_down: "set (range_down a b) = {b<..a}"
proof -
  have "\<And>i. b < i \<Longrightarrow> i \<le> a \<Longrightarrow> i \<in> (\<lambda>k. a - int k) ` {0..<nat (a - b)}"
  proof -
    fix i assume "b < i" "i \<le> a"
    then have "i = a - int (nat (a - i))" "nat (a - i) \<in> {0..<nat (a - b)}" by auto
    then show "i \<in> (\<lambda>k. a - int k) ` {0..<nat (a - b)}" by blast
  qed
  then show ?thesis by (auto simp: range_down_def)
qed

text \<open>The scan never reads outside the string, so it never raises.\<close>

lemma find_split_in_range:
  assumes "\<forall>i\<in>set is. 0 \<le> i \<and> i < int (length t)"
  shows "\<exists>sp. find_split t is d = Inr sp \<and> (sp = d \<or> sp - 1 \<in> set is)"
  using assms by (induction "is") (auto simp: getitem_def Let_def)

lemma find_split_bounds:
  assumes "0 < m" "m < int (length t)"
  shows "\<exists>sp. find_split t (range_down m (max 0 (m - 100))) m = Inr sp \<and> 1 \<le> sp \<and> sp \<le> m + 1"
proof -
  have "\<forall>i\<in>set (range_down m (max 0 (m - 100))). 0 \<le> i \<and> i < int (length t)"
    using assms by (auto simp: set_range_down)
  from find_split_in_range [OF this, of m] obtain sp where
    sp: "find_split t (range_down m (max 0 (m - 100))) m = Inr sp"
        "sp = m \<or> sp - 1 \<in> set (range_down m (max 0 (m - 100)))" by blast
  from sp(2) assms(1) have "1 \<le> sp \<and> sp \<le> m + 1"
    by (auto simp: set_range_down)
  with sp(1) show ?thesis by blast
qed

text \<open>
  For a positive maximum the loop ends. Its blocks, each followed by the blanks that
  \<open>lstrip\<close> removed behind it, make up the text again; a block is at most one character
  longer than the maximum.
\<close>

lemma split_loop_blocks:
  assumes "0 < m"
  shows "\<exists>blocks gaps. split_loop m t chunks = Some (Inr (chunks @ blocks))
           \<and> length gaps = length blocks
           \<and> (\<forall>g\<in>set gaps. \<forall>c\<in>set g. is_space c)
           \<and> (\<forall>b\<in>set blocks. int (length b) \<le> m + 1)
           \<and> (\<forall>b\<in>set (tl blocks). starts_unspaced b)
           \<and> (t = [] \<or> \<not> is_space (hd t) \<longrightarrow> (\<forall>b\<in>set blocks. starts_unspaced b))
           \<and> (t \<noteq> [] \<longrightarrow> blocks \<noteq> [])
           \<and> concat (map2 (@) blocks gaps) = t"
proof (induction "length t" arbitrary: t chunks rule: less_induct)
  case less
  show ?case
  proof (cases "t = []")
    case True
    have "split_loop m t chunks = Some (Inr (chunks @ []))"
      using True by (subst split_loop.simps) simp
    with True show ?thesis by (intro exI [of _ "[]"]) simp
  next
    case nonempty: False
    show ?thesis
    proof (cases "int (length t) \<le> m")
      case True
      have "split_loop m t chunks = Some (Inr (chunks @ [t]))"
        using True nonempty by (subst split_loop.simps) simp
      with True nonempty show ?thesis
        by (intro exI [of _ "[t]"] exI [of _ "[Nil]"]) (simp add: starts_unspaced_def)
    next
      case False
      then have long: "m < int (length t)" by simp
      from find_split_bounds [OF assms long] obtain sp where
        sp: "find_split t (range_down m (max 0 (m - 100))) m = Inr sp" "1 \<le> sp" "sp \<le> m + 1"
        by blast
      define k where "k = nat sp"
      have k: "0 < k" "k \<le> length t" "int k \<le> m + 1"
        using sp long by (auto simp: k_def)
      have bound: "slice_bound sp (length t) = k"
        using sp k by (simp add: slice_bound_def k_def)
      define block where "block = take k t"
      define rest where "rest = drop k t"
      define gap where "gap = takeWhile is_space rest"
      define t' where "t' = dropWhile is_space rest"
      have step: "split_loop m t chunks = split_loop m t' (chunks @ [block])"
        using nonempty False sp(1) bound
        by (subst split_loop.simps)
           (simp add: slice_from_def slice_to_def lstrip_def t'_def rest_def block_def)
      have "length t' \<le> length rest"
        by (simp add: t'_def length_dropWhile_le)
      also have "length rest < length t"
        using k nonempty by (simp add: rest_def)
      finally have shorter: "length t' < length t" .
      from less [OF shorter, of "chunks @ [block]"] obtain blocks gaps where
        ih: "split_loop m t' (chunks @ [block]) = Some (Inr ((chunks @ [block]) @ blocks))"
            "length gaps = length blocks"
            "\<forall>g\<in>set gaps. \<forall>c\<in>set g. is_space c"
            "\<forall>b\<in>set blocks. int (length b) \<le> m + 1"
            "t' = [] \<or> \<not> is_space (hd t') \<longrightarrow> (\<forall>b\<in>set blocks. starts_unspaced b)"
            "concat (map2 (@) blocks gaps) = t'"
        by blast
      have tl_ok: "\<forall>b\<in>set blocks. starts_unspaced b"
        using ih(5) hd_dropWhile [of is_space rest] by (auto simp: t'_def)
      have gap_ws: "\<forall>c\<in>set gap. is_space c"
        by (auto simp: gap_def dest: set_takeWhileD)
      have block_len: "int (length block) \<le> m + 1"
        using k by (simp add: block_def)
      have block_hd: "block \<noteq> []" "hd block = hd t"
        using k nonempty by (auto simp: block_def hd_take)
      have whole: "block @ gap @ t' = t"
        by (simp add: block_def gap_def t'_def rest_def)
      show ?thesis
        using step ih(1-4,6) tl_ok gap_ws block_len block_hd whole nonempty
        by (intro exI [of _ "block # blocks"] exI [of _ "gap # gaps"])
           (simp add: starts_unspaced_def)
    qed
  qed
qed

lemma split_text_returns:
  assumes "0 < m"
  shows "\<exists>blocks. split_text t m = Some (Inr blocks) \<and> (\<forall>b\<in>set blocks. int (length b) \<le> m + 1)"
proof (cases "int (length t) \<le> m")
  case True
  then show ?thesis by (simp add: split_text_def)
next
  case False
  from split_loop_blocks [OF assms, of t "[]"] False show ?thesis
    by (auto simp: split_text_def)
qed

text \<open>With the maximum zero the loop does not return on a text that is not blank.\<close>

lemma split_loop_zero_never_returns: "split_loop 0 (u ''a'') chunks = None"
proof -
  have "\<not> (m = 0 \<and> t = u ''a'')" if ret: "split_loop m t c = Some r" for m t c r
  proof (rule split_loop.raw_induct [where P = "\<lambda>m t c r. \<not> (m = 0 \<and> t = u ''a'')", OF _ ret])
    fix f :: "int \<Rightarrow> py_str \<Rightarrow> py_str list \<Rightarrow> (error + py_str list) option" and m t c r
    assume IH: "\<And>m t c r. f m t c = Some r \<Longrightarrow> \<not> (m = 0 \<and> t = u ''a'')"
      and eq: "(if t = [] then Some (Inr c)
                else if int (length t) \<le> m then Some (Inr (c @ [t]))
                else (case find_split t (range_down m (max 0 (m - 100))) m of
                        Inl e \<Rightarrow> Some (Inl e)
                      | Inr split_point \<Rightarrow>
                          f m (lstrip (slice_from t split_point)) (c @ [slice_to t split_point])))
               = Some r"
    show "\<not> (m = 0 \<and> t = u ''a'')"
    proof
      assume "m = 0 \<and> t = u ''a''"
      with eq have "f 0 (u ''a'') (c @ [Nil]) = Some r"
        by (simp add: u_def range_down_def slice_from_def slice_to_def slice_bound_def
              lstrip_def is_space_def)
      from IH [OF this] show False by simp
    qed
  qed
  then show ?thesis by (cases "split_loop 0 (u ''a'') chunks") auto
qed

text \<open>
  C1. A block can be longer than the maximum. The backward scan starts at index
  \<open>max_length\<close> itself and cuts behind the character it finds, so a full stop at index
  1900 of a transcript gives a first block of 1901 characters under the limit 1900 that
  \<open>_create_notion_page\<close> uses.
\<close>

theorem split_text_block_over_limit:
  "split_text (replicate 1900 97 @ u ''. b'') 1900
     = Some (Inr [replicate 1900 97 @ u ''.'', u ''b''])
   \<and> length (replicate 1900 97 @ u ''.'') = 1901"
  by (simp add: split_text_def split_loop.simps u_def range_down_rec getitem_def
        slice_to_def slice_from_def slice_bound_def lstrip_def is_space_def nth_append)



section \<open>Properties of \<open>parse_cards\<close>\<close>

text \<open>The loop computes the cards of the question blocks: what it has put out, the card
  of the block that is still open, and the cards of the blocks still to come.\<close>

lemma parse_lines_blocks:
  "finish (parse_lines lns (q, a, out))
     = out @ open_card q a (map strip lns) @ concat (map block_card (q_blocks (map strip lns)))"
proof (induction lns arbitrary: q a out)
  case Nil
  show ?case by (simp add: finish_def open_card_def)
next
  case (Cons raw lns)
  show ?case
  proof (cases "is_q (strip raw)")
    case True
    then show ?thesis
      using Cons [of "line_body (strip raw)" "[]"]
      by (simp add: Let_def is_q_def [symmetric] line_body_def [symmetric] open_card_def block_card_def)
  next
    case notq: False
    show ?thesis
    proof (cases "is_a (strip raw)")
      case True
      then show ?thesis
        using notq Cons [of q "line_body (strip raw)" out]
        by (simp add: Let_def is_q_def [symmetric] is_a_def [symmetric] line_body_def [symmetric] open_card_def)
    next
      case False
      then show ?thesis
        using notq Cons [of q a out]
        by (simp add: Let_def is_q_def [symmetric] is_a_def [symmetric] open_card_def)
    qed
  qed
qed

lemma parse_cards_blocks: "parse_cards reply = block_cards reply"
  using parse_lines_blocks [of "splitlines reply" "[]" "[]" "[]"]
  by (simp add: parse_cards_def block_cards_def finish_def open_card_def)

section \<open>Properties of the parent-chain walk\<close>

lemma top_level_key_stop: "top_level m k \<Longrightarrow> top_level_key m k = Some k"
  by (subst top_level_key.simps) (simp add: top_level_def split: option.splits)

lemma top_level_key_step:
  "parent_of m k = Some p \<Longrightarrow> p \<noteq> [] \<Longrightarrow> top_level_key m k = top_level_key m p"
  by (subst top_level_key.simps) simp

lemma chain_resolves:
  "parent_chain m (ks @ [r]) \<Longrightarrow> top_level m r \<Longrightarrow> top_level_key m (hd (ks @ [r])) = Some r"
proof (induction ks)
  case Nil
  then show ?case by (simp add: top_level_key_stop)
next
  case (Cons k ks)
  then show ?case
    by (cases ks) (simp_all add: top_level_key_step)
qed

lemma finite_dom_index_by_key: "finite (dom (index_by_key items))"
proof -
  have "finite (dom m) \<Longrightarrow> finite (dom (foldl (\<lambda>m i. m(item_key i \<mapsto> i)) m items))" for m
    by (induction items arbitrary: m) simp_all
  then show ?thesis by (simp add: index_by_key_def)
qed

lemma finite_parent_links: "finite (dom m) \<Longrightarrow> finite (parent_links m)"
proof -
  assume fin: "finite (dom m)"
  have "parent_links m \<subseteq> (\<lambda>k. (the (parent_of m k), k)) ` dom m"
    by (auto simp: parent_links_def parent_of_def image_iff split: option.splits)
  with fin show ?thesis by (meson finite_imageI finite_subset)
qed

lemma top_level_key_wf:
  assumes "wf (parent_links m)"
  shows "\<exists>r. top_level_key m k = Some r \<and> top_level m r"
  using assms
proof (induction k rule: wf_induct_rule)
  case (less k)
  show ?case
  proof (cases "top_level m k")
    case True
    then show ?thesis by (auto simp: top_level_key_stop)
  next
    case False
    then obtain p where p: "parent_of m k = Some p" "p \<noteq> []"
      by (auto simp: top_level_def split: option.splits)
    then have "(p, k) \<in> parent_links m" by (simp add: parent_links_def)
    from less [OF this] p show ?thesis by (simp add: top_level_key_step)
  qed
qed

lemma top_level_key_closed_None:
  assumes closed: "\<And>k. k \<in> S \<Longrightarrow> \<exists>p. parent_of m k = Some p \<and> p \<noteq> [] \<and> p \<in> S"
    and k: "k \<in> S"
  shows "top_level_key m k = None"
proof -
  have "m' = m \<longrightarrow> k' \<notin> S" if ret: "top_level_key m' k' = Some r" for m' k' r
  proof (rule top_level_key.raw_induct [where P = "\<lambda>m' k' r. m' = m \<longrightarrow> k' \<notin> S", OF _ ret])
    fix f :: "(py_str \<rightharpoonup> item) \<Rightarrow> py_str \<Rightarrow> py_str option" and m' k' r
    assume IH: "\<And>a b y. f a b = Some y \<Longrightarrow> a = m \<longrightarrow> b \<notin> S"
      and eq: "(case parent_of m' k' of None \<Rightarrow> Some k'
                | Some parent \<Rightarrow> if parent = [] then Some k' else f m' parent) = Some r"
    show "m' = m \<longrightarrow> k' \<notin> S"
    proof
      assume m': "m' = m"
      show "k' \<notin> S"
      proof
        assume "k' \<in> S"
        from closed [OF this] obtain p where p: "parent_of m k' = Some p" "p \<noteq> []" "p \<in> S"
          by blast
        with eq m' have "f m p = Some r" by simp
        from IH [OF this] p(3) show False by simp
      qed
    qed
  qed
  then show ?thesis using k by (cases "top_level_key m k") auto
qed

lemma map_of_setdefault_append:
  "map_of (setdefault_append annos k v)
     = (map_of annos)(k \<mapsto> (case map_of annos k of None \<Rightarrow> [] | Some vs \<Rightarrow> vs) @ [v])"
  by (induction annos k v rule: setdefault_append.induct) (auto simp: fun_eq_iff)

lemma bucket_notes_step:
  assumes "annotation_head env (note_md env n)" "parent_item n = Some a"
    "top_level_key m a = Some r"
  shows "bucket_notes env m (n # notes) annos
           = bucket_notes env m notes (setdefault_append annos r (note_md env n))"
  using assms by (simp add: Let_def)

lemma index_by_key_dom: "dom (index_by_key items) = item_key ` set items"
proof -
  have "dom (foldl (\<lambda>m i. m(item_key i \<mapsto> i)) m items) = dom m \<union> item_key ` set items" for m
    by (induction items arbitrary: m) auto
  then show ?thesis by (simp add: index_by_key_def)
qed

lemma papers_subset_items: "index_by_key items k = None \<Longrightarrow> papers_by_id items k = None"
proof -
  assume "index_by_key items k = None"
  then have "k \<notin> dom (index_by_key items)" by (simp add: domIff)
  then have "k \<notin> item_key ` set items" unfolding index_by_key_dom .
  then have "k \<notin> dom (papers_by_id items)"
    unfolding papers_by_id_def index_by_key_dom by auto
  then show ?thesis by (simp add: domIff)
qed

lemma group_step_orphan: "papers pid = None \<Longrightarrow> group_step env pd papers st (pid, txts) = (None, st)"
  by (simp add: group_step_def)

lemma absent_top_level: "m k = None \<Longrightarrow> top_level m k"
  by (simp add: top_level_def parent_of_def)

text \<open>
  C6. A note whose declared parent \<open>a\<close> starts the chain \<open>a \<rightarrow> b \<rightarrow> c\<close>, where \<open>c\<close> has
  no parent reference, resolves to \<open>c\<close> and its text is appended to the group of \<open>c\<close>.
  A note whose chain ends at a key \<open>k\<close> that is not among the fetched items resolves
  to \<open>k\<close> and is grouped without an exception; no paper has that key, so the round
  of the group loop for \<open>k\<close> makes no call and raises nothing.
\<close>

theorem note_parent_resolution:
  "(parent_chain (index_by_key items) [a, b, c] \<and> top_level (index_by_key items) c
      \<and> parent_item n = Some a \<and> annotation_head env (note_md env n)
    \<longrightarrow> top_level_key (index_by_key items) a = Some c
        \<and> bucket_notes env (index_by_key items) (n # notes) annos
            = bucket_notes env (index_by_key items) notes
                (setdefault_append annos c (note_md env n))
        \<and> map_of (setdefault_append annos c (note_md env n)) c
            = Some ((case map_of annos c of None \<Rightarrow> [] | Some vs \<Rightarrow> vs) @ [note_md env n]))
   \<and> (parent_chain (index_by_key items) (ks @ [k]) \<and> index_by_key items k = None
      \<and> parent_item n = Some (hd (ks @ [k])) \<and> annotation_head env (note_md env n)
    \<longrightarrow> top_level_key (index_by_key items) (hd (ks @ [k])) = Some k
        \<and> bucket_notes env (index_by_key items) (n # notes) annos
            = bucket_notes env (index_by_key items) notes
                (setdefault_append annos k (note_md env n))
        \<and> papers_by_id items k = None
        \<and> group_step env pd (papers_by_id items) st (k, txts) = (None, st))"
proof (intro conjI impI)
  assume h: "parent_chain (index_by_key items) [a, b, c] \<and> top_level (index_by_key items) c
      \<and> parent_item n = Some a \<and> annotation_head env (note_md env n)"
  then show r: "top_level_key (index_by_key items) a = Some c"
    using chain_resolves [of "index_by_key items" "[a, b]" c] by simp
  from h r show "bucket_notes env (index_by_key items) (n # notes) annos
            = bucket_notes env (index_by_key items) notes
                (setdefault_append annos c (note_md env n))"
    by (simp add: bucket_notes_step)
  show "map_of (setdefault_append annos c (note_md env n)) c
            = Some ((case map_of annos c of None \<Rightarrow> [] | Some vs \<Rightarrow> vs) @ [note_md env n])"
    by (simp add: map_of_setdefault_append)
next
  assume h: "parent_chain (index_by_key items) (ks @ [k]) \<and> index_by_key items k = None
      \<and> parent_item n = Some (hd (ks @ [k])) \<and> annotation_head env (note_md env n)"
  then show r: "top_level_key (index_by_key items) (hd (ks @ [k])) = Some k"
    using chain_resolves [of "index_by_key items" ks k] by (simp add: absent_top_level)
  from h r show "bucket_notes env (index_by_key items) (n # notes) annos
            = bucket_notes env (index_by_key items) notes
                (setdefault_append annos k (note_md env n))"
    by (simp add: bucket_notes_step)
  from h show p: "papers_by_id items k = None" by (simp add: papers_subset_items)
  then show "group_step env pd (papers_by_id items) st (k, txts) = (None, st)"
    by (rule group_step_orphan)
qed

lemmas demo_simps = index_by_key_def demo_items_def demo_item_def u_def
  parent_of_def top_level_def

lemma demo_chain: "parent_chain (index_by_key demo_items) [u ''A'', u ''B'', u ''C'']"
  by (simp add: demo_simps)

lemma demo_top: "top_level (index_by_key demo_items) (u ''C'')"
  by (simp add: demo_simps)

lemma demo_absent: "index_by_key demo_items (u ''Z'') = None"
  by (simp add: demo_simps)

lemma demo_note_head:
  "annotation_head demo_env (note_md demo_env (demo_item (u ''N'') (u ''note'') p))"
  by (simp add: annotation_head_def note_md_def demo_env_def demo_item_def u_def strip_def
        lstrip_def rstrip_def is_space_def slice_to_def slice_bound_def)

lemma demo_note_md:
  "note_md demo_env (demo_item (u ''N'') (u ''note'') p) = u ''annotations: a highlight''"
  by (simp add: note_md_def demo_env_def demo_item_def u_def strip_def
        lstrip_def rstrip_def is_space_def)

text \<open>C6 on the example items: the note under \<open>A\<close> goes to the group of \<open>C\<close>, the
  note under the unknown key \<open>Z\<close> to a group that is skipped.\<close>

theorem note_parent_resolution_witness:
  "top_level_key (index_by_key demo_items) (u ''A'') = Some (u ''C'')
   \<and> bucket_notes demo_env (index_by_key demo_items)
        [demo_item (u ''N'') (u ''note'') (Some (u ''A''))] []
        = Some (Inr [(u ''C'', [u ''annotations: a highlight''])])
   \<and> top_level_key (index_by_key demo_items) (u ''Z'') = Some (u ''Z'')
   \<and> bucket_notes demo_env (index_by_key demo_items)
        [demo_item (u ''N'') (u ''note'') (Some (u ''Z''))] []
        = Some (Inr [(u ''Z'', [u ''annotations: a highlight''])])
   \<and> group_step demo_env (u ''Lib'') (papers_by_id demo_items)
        \<lparr>decks_exist = {}, calls = [DeckNames]\<rparr> (u ''Z'', [u ''annotations: a highlight''])
        = (None, \<lparr>decks_exist = {}, calls = [DeckNames]\<rparr>)"
proof -
  let ?n = "\<lambda>p. demo_item (u ''N'') (u ''note'') (Some p)"
  have pa: "parent_item (?n p) = Some p" for p by (simp add: demo_item_def)
  have chainZ: "parent_chain (index_by_key demo_items) ([] @ [u ''Z''])" by simp
  from note_parent_resolution [of demo_items "u ''A''" "u ''B''" "u ''C''" "?n (u ''A'')" demo_env
      "[]" "[]" "[]" "u ''Z''" "u ''Lib''" "\<lparr>decks_exist = {}, calls = [DeckNames]\<rparr>"
      "[u ''annotations: a highlight'']"]
    demo_chain demo_top pa demo_note_head
  have one: "top_level_key (index_by_key demo_items) (u ''A'') = Some (u ''C'')
     \<and> bucket_notes demo_env (index_by_key demo_items) [?n (u ''A'')] []
        = Some (Inr [(u ''C'', [u ''annotations: a highlight''])])"
    by (simp add: demo_note_md)
  from note_parent_resolution [of demo_items "u ''A''" "u ''B''" "u ''C''" "?n (u ''Z'')" demo_env
      "[]" "[]" "[]" "u ''Z''" "u ''Lib''" "\<lparr>decks_exist = {}, calls = [DeckNames]\<rparr>"
      "[u ''annotations: a highlight'']"]
    chainZ demo_absent pa demo_note_head
  have two: "top_level_key (index_by_key demo_items) (u ''Z'') = Some (u ''Z'')
     \<and> bucket_notes demo_env (index_by_key demo_items) [?n (u ''Z'')] []
        = Some (Inr [(u ''Z'', [u ''annotations: a highlight''])])
     \<and> group_step demo_env (u ''Lib'') (papers_by_id demo_items)
        \<lparr>decks_exist = {}, calls = [DeckNames]\<rparr> (u ''Z'', [u ''annotations: a highlight''])
        = (None, \<lparr>decks_exist = {}, calls = [DeckNames]\<rparr>)"
    by (simp add: demo_note_md)
  from one two show ?thesis by simp
qed

lemma cyclic_closed:
  assumes "k \<in> {u ''A'', u ''B''}"
  shows "\<exists>p. parent_of (index_by_key cyclic_items) k = Some p \<and> p \<noteq> [] \<and> p \<in> {u ''A'', u ''B''}"
  using assms by (auto simp: demo_simps cyclic_items_def)

text \<open>
  C7, as stated, fails: on two items that name each other as parent the walk from
  either of them never returns.
\<close>

theorem top_level_key_cycle_never_returns:
  "top_level_key (index_by_key cyclic_items) (u ''A'') = None"
proof (rule top_level_key_closed_None [of "{u ''A'', u ''B''}"])
  show "u ''A'' \<in> {u ''A'', u ''B''}" by simp
next
  fix k assume "k \<in> {u ''A'', u ''B''}"
  then show "\<exists>p. parent_of (index_by_key cyclic_items) k = Some p \<and> p \<noteq> []
              \<and> p \<in> {u ''A'', u ''B''}"
    by (rule cyclic_closed)
qed

text \<open>
  C7, amended. When the parent links of the fetched items contain no cycle, the walk
  from any key returns, and it returns a key at which the walk stops: a key that is
  not fetched, or an item without a parent reference.
\<close>

theorem top_level_key_returns_acyclic:
  assumes "acyclic (parent_links (index_by_key items))"
  shows "\<exists>r. top_level_key (index_by_key items) k = Some r \<and> top_level (index_by_key items) r"
proof -
  have "finite (parent_links (index_by_key items))"
    by (rule finite_parent_links) (rule finite_dom_index_by_key)
  with assms have "wf (parent_links (index_by_key items))"
    by (simp add: finite_acyclic_wf)
  then show ?thesis by (rule top_level_key_wf)
qed

lemma demo_acyclic: "acyclic (parent_links (index_by_key demo_items))"
proof (rule acyclicI_order [where f = "\<lambda>k. if k = [] then 0 else hd k"])
  fix a b assume "(a, b) \<in> parent_links (index_by_key demo_items)"
  then show "(if b = [] then 0 else hd b) < (if a = [] then 0 else hd a)"
    by (auto simp: parent_links_def demo_simps split: if_splits)
qed

text \<open>C7 amended, on the example items, whose links \<open>A \<rightarrow> B \<rightarrow> C\<close> have no cycle.\<close>

theorem top_level_key_returns_acyclic_witness:
  "acyclic (parent_links (index_by_key demo_items))
   \<and> top_level_key (index_by_key demo_items) (u ''A'') = Some (u ''C'')
   \<and> (\<exists>r. top_level_key (index_by_key demo_items) (u ''A'') = Some r
          \<and> top_level (index_by_key demo_items) r)"
proof -
  have "top_level_key (index_by_key demo_items) (u ''A'') = Some (u ''C'')"
    using chain_resolves [of "index_by_key demo_items" "[u ''A'', u ''B'']" "u ''C''"]
      demo_chain demo_top by simp
  with demo_acyclic top_level_key_returns_acyclic [OF demo_acyclic, of "u ''A''"]
  show ?thesis by blast
qed

section \<open>Properties of the loop over the groups\<close>

lemma push_cards_decks: "decks_exist (snd (push_cards env deck cards st)) = decks_exist st"
  by (induction cards arbitrary: st) (auto split: option.splits)

lemma push_cards_calls:
  "\<exists>n. calls (snd (push_cards env deck cards st))
         = calls st @ map (\<lambda>(q, a). AddNote deck q a) (take n cards)"
proof (induction cards arbitrary: st)
  case Nil
  then show ?case by simp
next
  case (Cons qa cards)
  obtain q a where qa: "qa = (q, a)" by (cases qa)
  show ?case
  proof (cases "anki_post env (calls st) (AddNote deck q a)")
    case None
    from Cons [of "st\<lparr>calls := calls st @ [AddNote deck q a]\<rparr>"] obtain n where
      "calls (snd (push_cards env deck cards (st\<lparr>calls := calls st @ [AddNote deck q a]\<rparr>)))
         = (calls st @ [AddNote deck q a]) @ map (\<lambda>(q, a). AddNote deck q a) (take n cards)"
      by auto
    with None qa show ?thesis by (intro exI [of _ "Suc n"]) simp
  next
    case (Some e)
    with qa show ?thesis by (intro exI [of _ "Suc 0"]) simp
  qed
qed

lemma push_cards_ok:
  "push_cards env deck cards st = (None, st')
     \<Longrightarrow> st' = st\<lparr>calls := calls st @ map (\<lambda>(q, a). AddNote deck q a) cards\<rparr>"
proof (induction cards arbitrary: st)
  case Nil
  then show ?case by simp
next
  case (Cons qa cards)
  obtain q a where qa: "qa = (q, a)" by (cases qa)
  from Cons.prems qa have ok: "anki_post env (calls st) (AddNote deck q a) = None"
    and rest: "push_cards env deck cards (st\<lparr>calls := calls st @ [AddNote deck q a]\<rparr>) = (None, st')"
    by (auto split: option.splits)
  from Cons.IH [OF rest] qa show ?case by simp
qed

text \<open>What one round keeps: the deck set and the calls only grow, and unless the round
  ends with an exception every deck it created is in the set afterwards.\<close>

lemma group_step_grows:
  assumes "group_step env pd papers st g = (e, st')"
  shows "decks_exist st \<subseteq> decks_exist st'
         \<and> (\<exists>new. calls st' = calls st @ new
               \<and> (e = None \<longrightarrow> (\<forall>d. CreateDeck d \<in> set new \<longrightarrow> d \<in> decks_exist st')))"
proof -
  obtain pid txts where g: "g = (pid, txts)" by (cases g)
  show ?thesis
  proof (cases "papers pid")
    case None
    with assms g show ?thesis by (simp add: group_step_def)
  next
    case (Some paper)
    show ?thesis
    proof (cases "creators paper")
      case Nil
      with assms g Some show ?thesis by (auto simp: group_step_def)
    next
      case (Cons c cs)
      define deck where "deck = deck_for pd paper c"
      show ?thesis
      proof (cases "deck \<in> decks_exist st")
        case True
        with assms g Some Cons show ?thesis by (simp add: group_step_def deck_def)
      next
        case fresh: False
        show ?thesis
        proof (cases "anki_post env (calls st) (CreateDeck deck)")
          case (Some err)
          with assms g \<open>papers pid = Some paper\<close> Cons fresh show ?thesis
            by (auto simp: group_step_def deck_def)
        next
          case None
          define st1 where "st1 = \<lparr>decks_exist = insert deck (decks_exist st),
                                   calls = calls st @ [CreateDeck deck]\<rparr>"
          define block where "block = join [10, 10] txts"
          define st2 where "st2 = st1\<lparr>calls := calls st1 @ [GenerateCards block]\<rparr>"
          show ?thesis
          proof (cases "chat_content env (calls st1) block")
            case (Inl err)
            with assms g \<open>papers pid = Some paper\<close> Cons fresh None
            have "e = Some err" "st' = st2"
              by (simp_all add: group_step_def deck_def [symmetric] Let_def st1_def st2_def block_def)
            then show ?thesis by (simp add: st2_def st1_def subset_insertI)
          next
            case (Inr reply)
            with assms g \<open>papers pid = Some paper\<close> Cons fresh None
            have r: "push_cards env deck (parse_cards reply) st2 = (e, st')"
              by (simp add: group_step_def deck_def [symmetric] Let_def st1_def st2_def block_def)
            from push_cards_decks [of env deck "parse_cards reply" st2] r
            have d: "decks_exist st' = insert deck (decks_exist st)"
              by (simp add: st2_def st1_def)
            from push_cards_calls [of env deck "parse_cards reply" st2] r obtain n where
              c: "calls st' = calls st2 @ map (\<lambda>(q, a). AddNote deck q a) (take n (parse_cards reply))"
              by auto
            have "calls st' = calls st @ ([CreateDeck deck, GenerateCards block]
                    @ map (\<lambda>(q, a). AddNote deck q a) (take n (parse_cards reply)))"
              using c by (simp add: st2_def st1_def)
            moreover have "\<forall>d. CreateDeck d \<in> set ([CreateDeck deck, GenerateCards block]
                    @ map (\<lambda>(q, a). AddNote deck q a) (take n (parse_cards reply)))
                  \<longrightarrow> d \<in> decks_exist st'"
              using d by auto
            ultimately show ?thesis using d by blast
          qed
        qed
      qed
    qed
  qed
qed

lemma group_loop_grows:
  assumes "group_loop env pd papers st gs = (None, st')"
  shows "decks_exist st \<subseteq> decks_exist st'
         \<and> (\<exists>new. calls st' = calls st @ new
               \<and> (\<forall>d. CreateDeck d \<in> set new \<longrightarrow> d \<in> decks_exist st'))"
  using assms
proof (induction gs arbitrary: st)
  case Nil
  then show ?case by simp
next
  case (Cons g gs)
  obtain e st1 where step: "group_step env pd papers st g = (e, st1)"
    by (cases "group_step env pd papers st g")
  with Cons.prems have e: "e = None" and rest: "group_loop env pd papers st1 gs = (None, st')"
    by (auto split: option.splits)
  from group_step_grows [OF step] e obtain new1 where
    s1: "decks_exist st \<subseteq> decks_exist st1" "calls st1 = calls st @ new1"
        "\<forall>d. CreateDeck d \<in> set new1 \<longrightarrow> d \<in> decks_exist st1"
    by auto
  from Cons.IH [OF rest] obtain new2 where
    s2: "decks_exist st1 \<subseteq> decks_exist st'" "calls st' = calls st1 @ new2"
        "\<forall>d. CreateDeck d \<in> set new2 \<longrightarrow> d \<in> decks_exist st'"
    by auto
  have "calls st' = calls st @ (new1 @ new2)" using s1(2) s2(2) by simp
  moreover have "\<forall>d. CreateDeck d \<in> set (new1 @ new2) \<longrightarrow> d \<in> decks_exist st'"
    using s1(3) s2(1,3) by auto
  ultimately show ?case using s1(1) s2(1) by blast
qed

lemma group_loop_append:
  "group_loop env pd papers st (gs1 @ gs2)
     = (case group_loop env pd papers st gs1 of
          (Some e, st') \<Rightarrow> (Some e, st')
        | (None, st') \<Rightarrow> group_loop env pd papers st' gs2)"
  by (induction gs1 arbitrary: st) (auto split: prod.splits option.splits)

lemma group_step_existing:
  assumes "papers pid = Some paper" "creators paper = c # cs"
    "deck_for pd paper c \<in> decks_exist st"
  shows "group_step env pd papers st (pid, txts) = (None, st)"
  using assms by (simp add: group_step_def)

lemma group_step_calls_fresh:
  assumes "calls (snd (group_step env pd papers st g)) \<noteq> calls st"
  shows "\<exists>paper c cs. papers (fst g) = Some paper \<and> creators paper = c # cs
           \<and> deck_for pd paper c \<notin> decks_exist st"
  using assms
  by (cases g) (auto simp: group_step_def Let_def split: option.splits list.splits if_splits)

text \<open>
  C5. Let the loop over the groups have reached the state \<open>st\<close> from \<open>st0\<close> without an
  exception. A group whose deck name was in the set of existing decks at the start, or
  whose deck was created by a call made since, is skipped: the round returns the state
  as it was, with no call to the language model and no call to the flashcard
  application, and the loop goes on with the groups behind it. A round that makes any
  call belongs to a paper whose deck is not in the set.
\<close>

theorem deck_dedup:
  assumes "group_loop env pd papers st0 before = (None, st)"
    and "papers pid = Some paper" and "creators paper = c # cs"
    and "deck_for pd paper c \<in> decks_exist st0
         \<or> CreateDeck (deck_for pd paper c) \<in> set (new_calls st0 st)"
  shows "group_step env pd papers st (pid, txts) = (None, st)
         \<and> group_loop env pd papers st0 (before @ (pid, txts) # after)
             = group_loop env pd papers st after
         \<and> (\<forall>g. calls (snd (group_step env pd papers st g)) \<noteq> calls st
               \<longrightarrow> (\<exists>paper' c' cs'. papers (fst g) = Some paper' \<and> creators paper' = c' # cs'
                      \<and> deck_for pd paper' c' \<notin> decks_exist st))"
proof -
  from group_loop_grows [OF assms(1)] obtain new where
    grow: "decks_exist st0 \<subseteq> decks_exist st" "calls st = calls st0 @ new"
          "\<forall>d. CreateDeck d \<in> set new \<longrightarrow> d \<in> decks_exist st"
    by auto
  from grow(2) have "new_calls st0 st = new" by (simp add: new_calls_def)
  with assms(4) grow(1,3) have seen: "deck_for pd paper c \<in> decks_exist st" by auto
  have skip: "group_step env pd papers st (pid, txts) = (None, st)"
    using assms(2,3) seen by (rule group_step_existing)
  have "group_loop env pd papers st0 (before @ (pid, txts) # after)
          = group_loop env pd papers st after"
    using assms(1) skip by (simp add: group_loop_append)
  with skip show ?thesis using group_step_calls_fresh by blast
qed


lemmas text_simps = u_def strip_def lstrip_def rstrip_def is_space_def slice_from_def slice_to_def
  slice_bound_def startswith_def splitlines_def is_linebreak_def

lemma demo_reply_cards: "parse_cards demo_reply = [(u ''What is X?'', u ''It is Y.'')]"
  by (simp add: parse_cards_def demo_reply_def text_simps)

lemma two_papers_lookup:
  "papers_by_id two_papers (u ''P1'') = Some (demo_item (u ''P1'') (u ''journalArticle'') None)"
  "papers_by_id two_papers (u ''P2'') = Some (demo_item (u ''P2'') (u ''report'') None)"
  by (simp_all add: papers_by_id_def two_papers_def index_by_key_def demo_item_def u_def)

lemma demo_deck_for: "deck_for (u ''Lib'') (demo_item k ty p) \<lparr>last_name = Some (u ''Doe'')\<rparr> = demo_deck"
  by (simp add: deck_for_def demo_item_def demo_deck_def u_def slice_to_def slice_bound_def)

lemma demo_creators: "creators (demo_item k ty p) = \<lparr>last_name = Some (u ''Doe'')\<rparr> # []"
  by (simp add: demo_item_def)

lemma demo_first_group:
  "group_loop demo_env (u ''Lib'') (papers_by_id two_papers) demo_start [(u ''P1'', [u ''n1''])]
     = (None, \<lparr>decks_exist = {demo_deck},
               calls = [DeckNames, CreateDeck demo_deck, GenerateCards (u ''n1''),
                        AddNote demo_deck (u ''What is X?'') (u ''It is Y.'')]\<rparr>)"
  by (simp add: group_step_def two_papers_lookup demo_creators demo_deck_for demo_start_def
        demo_reply_cards)
     (simp add: demo_env_def demo_reply_cards)


text \<open>C5 on two papers with the same deck name: the first round creates the deck and
  pushes one card, the second round changes nothing.\<close>

theorem deck_dedup_witness:
  "group_loop demo_env (u ''Lib'') (papers_by_id two_papers) demo_start [(u ''P1'', [u ''n1''])]
     = (None, \<lparr>decks_exist = {demo_deck},
               calls = [DeckNames, CreateDeck demo_deck, GenerateCards (u ''n1''),
                        AddNote demo_deck (u ''What is X?'') (u ''It is Y.'')]\<rparr>)
   \<and> group_step demo_env (u ''Lib'') (papers_by_id two_papers)
        \<lparr>decks_exist = {demo_deck},
         calls = [DeckNames, CreateDeck demo_deck, GenerateCards (u ''n1''),
                  AddNote demo_deck (u ''What is X?'') (u ''It is Y.'')]\<rparr>
        (u ''P2'', [u ''n2''])
     = (None, \<lparr>decks_exist = {demo_deck},
               calls = [DeckNames, CreateDeck demo_deck, GenerateCards (u ''n1''),
                        AddNote demo_deck (u ''What is X?'') (u ''It is Y.'')]\<rparr>)
   \<and> group_loop demo_env (u ''Lib'') (papers_by_id two_papers) demo_start
        [(u ''P1'', [u ''n1'']), (u ''P2'', [u ''n2''])]
     = (None, \<lparr>decks_exist = {demo_deck},
               calls = [DeckNames, CreateDeck demo_deck, GenerateCards (u ''n1''),
                        AddNote demo_deck (u ''What is X?'') (u ''It is Y.'')]\<rparr>)"
proof -
  let ?st = "\<lparr>decks_exist = {demo_deck},
               calls = [DeckNames, CreateDeck demo_deck, GenerateCards (u ''n1''),
                        AddNote demo_deck (u ''What is X?'') (u ''It is Y.'')]\<rparr>"
  have seen: "deck_for (u ''Lib'') (demo_item (u ''P2'') (u ''report'') None)
                  \<lparr>last_name = Some (u ''Doe'')\<rparr> \<in> decks_exist demo_start
              \<or> CreateDeck (deck_for (u ''Lib'') (demo_item (u ''P2'') (u ''report'') None)
                  \<lparr>last_name = Some (u ''Doe'')\<rparr>) \<in> set (new_calls demo_start ?st)"
    by (simp add: demo_deck_for new_calls_def demo_start_def)
  from deck_dedup [OF demo_first_group two_papers_lookup(2) demo_creators seen,
      of "[u ''n2'']" "[]"] demo_first_group
  show ?thesis by simp
qed

text \<open>
  C8, as stated, fails: a \<open>Q:\<close> line followed by an \<open>A:\<close> line whose answer text is on
  the next line gives no card, as \<open>if q and a\<close> drops a pair with an empty answer.
\<close>

theorem parse_cards_drops_empty_answer:
  "parse_cards (u ''Q: What is X?'' @ [10] @ u ''A:'' @ [10] @ u ''It is Y.'') = []
   \<and> answered_blocks (u ''Q: What is X?'' @ [10] @ u ''A:'' @ [10] @ u ''It is Y.'')
       = [(u ''Q: What is X?'', [u ''A:''])]"
  by (simp add: parse_cards_def answered_blocks_def is_q_def is_a_def text_simps)

text \<open>
  C8, amended. \<open>parse_cards\<close> returns, in the order of the reply, one pair for each
  \<open>Q:\<close> line with a question text that is followed, before the next \<open>Q:\<close> line, by at
  least one \<open>A:\<close> line and whose last such \<open>A:\<close> line has an answer text: the pair of
  the two texts. A round of the group loop that ends without an exception after the
  reply was received pushes exactly these cards, so the number of pushes is the number
  of these pairs.
\<close>

theorem cards_are_block_cards:
  "parse_cards reply = block_cards reply
   \<and> (papers pid = Some paper \<and> creators paper = c # cs
        \<and> deck_for pd paper c \<notin> decks_exist st
        \<and> chat_content env (calls st @ [CreateDeck (deck_for pd paper c)]) (join [10, 10] txts)
            = Inr reply
        \<and> group_step env pd papers st (pid, txts) = (None, st')
      \<longrightarrow> new_calls st st'
            = [CreateDeck (deck_for pd paper c), GenerateCards (join [10, 10] txts)]
              @ map (\<lambda>(q, a). AddNote (deck_for pd paper c) q a) (block_cards reply)
          \<and> length (filter is_push (new_calls st st')) = length (block_cards reply))"
proof (intro conjI impI)
  show eq: "parse_cards reply = block_cards reply" by (rule parse_cards_blocks)
  assume h: "papers pid = Some paper \<and> creators paper = c # cs
        \<and> deck_for pd paper c \<notin> decks_exist st
        \<and> chat_content env (calls st @ [CreateDeck (deck_for pd paper c)]) (join [10, 10] txts)
            = Inr reply
        \<and> group_step env pd papers st (pid, txts) = (None, st')"
  define deck where "deck = deck_for pd paper c"
  define st2 where "st2 = \<lparr>decks_exist = insert deck (decks_exist st),
      calls = calls st @ [CreateDeck deck, GenerateCards (join [10, 10] txts)]\<rparr>"
  from h have "push_cards env deck (parse_cards reply) st2 = (None, st')"
    by (auto simp: group_step_def Let_def deck_def st2_def split: option.splits)
  from push_cards_ok [OF this]
  have "calls st' = calls st @ [CreateDeck deck, GenerateCards (join [10, 10] txts)]
          @ map (\<lambda>(q, a). AddNote deck q a) (block_cards reply)"
    by (simp add: st2_def eq)
  then show new: "new_calls st st'
            = [CreateDeck (deck_for pd paper c), GenerateCards (join [10, 10] txts)]
              @ map (\<lambda>(q, a). AddNote (deck_for pd paper c) q a) (block_cards reply)"
    by (simp add: new_calls_def deck_def)
  have "filter is_push (map (\<lambda>(q, a). AddNote d q a) cards)
          = map (\<lambda>(q, a). AddNote d q a) cards" for d cards
    by (induction cards) (auto simp: is_push_def)
  then show "length (filter is_push (new_calls st st')) = length (block_cards reply)"
    by (simp add: new is_push_def)
qed

text \<open>C8 amended, on the example reply: one block, one card, one push.\<close>

theorem cards_are_block_cards_witness:
  "parse_cards demo_reply = [(u ''What is X?'', u ''It is Y.'')]
   \<and> block_cards demo_reply = [(u ''What is X?'', u ''It is Y.'')]
   \<and> group_step demo_env (u ''Lib'') (papers_by_id two_papers) demo_start (u ''P1'', [u ''n1''])
       = (None, \<lparr>decks_exist = {demo_deck},
                 calls = [DeckNames, CreateDeck demo_deck, GenerateCards (u ''n1''),
                          AddNote demo_deck (u ''What is X?'') (u ''It is Y.'')]\<rparr>)
   \<and> length (filter is_push
        (new_calls demo_start
           \<lparr>decks_exist = {demo_deck},
            calls = [DeckNames, CreateDeck demo_deck, GenerateCards (u ''n1''),
                     AddNote demo_deck (u ''What is X?'') (u ''It is Y.'')]\<rparr>))
       = length (block_cards demo_reply)"
proof -
  let ?st' = "\<lparr>decks_exist = {demo_deck},
                calls = [DeckNames, CreateDeck demo_deck, GenerateCards (u ''n1''),
                         AddNote demo_deck (u ''What is X?'') (u ''It is Y.'')]\<rparr>"
  let ?c = "\<lparr>last_name = Some (u ''Doe'')\<rparr>"
  let ?p = "demo_item (u ''P1'') (u ''journalArticle'') None"
  have step: "group_step demo_env (u ''Lib'') (papers_by_id two_papers) demo_start
                (u ''P1'', [u ''n1'']) = (None, ?st')"
    using demo_first_group by (simp split: prod.splits option.splits)
  have fresh: "deck_for (u ''Lib'') ?p ?c \<notin> decks_exist demo_start"
    by (simp add: demo_start_def)
  have reply: "chat_content demo_env (calls demo_start @ [CreateDeck (deck_for (u ''Lib'') ?p ?c)])
                 (join [10, 10] [u ''n1'']) = Inr demo_reply"
    by (simp add: demo_env_def)
  note T = cards_are_block_cards [of demo_reply "papers_by_id two_papers" "u ''P1''" ?p ?c "[]"
      "u ''Lib''" demo_start demo_env "[u ''n1'']" ?st']
  have prem: "papers_by_id two_papers (u ''P1'') = Some ?p \<and> creators ?p = ?c # []
        \<and> deck_for (u ''Lib'') ?p ?c \<notin> decks_exist demo_start
        \<and> chat_content demo_env (calls demo_start @ [CreateDeck (deck_for (u ''Lib'') ?p ?c)])
              (join [10, 10] [u ''n1'']) = Inr demo_reply
        \<and> group_step demo_env (u ''Lib'') (papers_by_id two_papers) demo_start
              (u ''P1'', [u ''n1'']) = (None, ?st')"
    using two_papers_lookup(1) demo_creators fresh reply step by blast
  from T [THEN conjunct2, THEN mp, OF prem]
  have len: "length (filter is_push (new_calls demo_start ?st')) = length (block_cards demo_reply)"
    by (rule conjunct2)
  from T [THEN conjunct1] demo_reply_cards
  have blocks: "block_cards demo_reply = [(u ''What is X?'', u ''It is Y.'')]" by simp
  from demo_reply_cards blocks step len show ?thesis by blast
qed

section \<open>Properties of the file-change tracker\<close>

lemma foldl_append_concat: "foldl (@) acc xss = acc @ concat xss"
  by (induction xss arbitrary: acc) simp_all

lemma concat_file_chunks: "concat (file_chunks bs) = bs"
proof (induction bs rule: file_chunks.induct)
  case (1 bs)
  show ?case
  proof (cases "bs = []")
    case True
    then show ?thesis by (simp add: file_chunks.simps)
  next
    case False
    with 1 show ?thesis by (subst file_chunks.simps) simp
  qed
qed

text \<open>Feeding the blocks of a file to the digest one by one gives the digest of the
  file.\<close>

lemma get_file_hash_read:
  "read_file env log (path_str p) = Inr bs \<Longrightarrow> get_file_hash env log p = Inr (md5_hexdigest env bs)"
  by (simp add: get_file_hash_def foldl_append_concat concat_file_chunks)






section \<open>Properties of loading the state\<close>





text \<open>An exception of reading the file other than \<open>FileNotFoundError\<close>, and an exception
  of \<open>json.load\<close> other than \<open>JSONDecodeError\<close>, leave \<open>_load_state\<close>.\<close>

lemma load_state_raises:
  assumes "state_exists env log"
    and "read_state env log = ReadFails e
         \<or> (\<exists>t. read_state env log = FileText t \<and> json_load env t = JSONRaises e)"
  shows "load_state env log = Inl e"
  using assms by (auto simp: load_state_def)




section \<open>Properties of page creation and of the processing loop\<close>

lemma notion_title_failed:
  assumes "r = Raises \<or> (\<exists>status content. r = Response status content \<and> status \<noteq> 200)"
  shows "notion_title r file_name = file_name"
  using assms by (auto simp: notion_title_def)

text \<open>
  C9. When the title request raises or is answered with a status other than 200,
  \<open>_create_notion_page\<close> goes on: it sends the page with the file name as its title,
  and returns the id of the page when that request is answered with status 200.
\<close>

theorem title_failure_uses_file_name:
  assumes "openai_chat env log (title_request file_name transcript) = Raises
           \<or> (\<exists>status content.
                 openai_chat env log (title_request file_name transcript) = Response status content
                 \<and> status \<noteq> 200)"
  shows "\<exists>chunks. split_text transcript 1900 = Some (Inr chunks)
           \<and> create_notion_page env log file_name transcript summary
               = Some (reply_value
                         (notion_pages env (log @ [ChatCompletion (title_request file_name transcript)])
                            \<lparr>page_title = file_name,
                             page_children = page_children_of summary chunks\<rparr>),
                       log @ [ChatCompletion (title_request file_name transcript),
                              CreatePage \<lparr>page_title = file_name,
                                          page_children = page_children_of summary chunks\<rparr>])
           \<and> (\<forall>page_id.
                 notion_pages env (log @ [ChatCompletion (title_request file_name transcript)])
                   \<lparr>page_title = file_name, page_children = page_children_of summary chunks\<rparr>
                   = Response 200 (Some page_id)
                 \<longrightarrow> create_notion_page env log file_name transcript summary
                       = Some (Inr page_id,
                               log @ [ChatCompletion (title_request file_name transcript),
                                      CreatePage \<lparr>page_title = file_name,
                                        page_children = page_children_of summary chunks\<rparr>]))"
proof -
  from split_text_returns [of 1900 transcript] obtain chunks where
    chunks: "split_text transcript 1900 = Some (Inr chunks)" by auto
  have title: "notion_title (openai_chat env log (title_request file_name transcript)) file_name
                 = file_name"
    using assms by (rule notion_title_failed)
  have page: "create_notion_page env log file_name transcript summary
               = Some (reply_value
                         (notion_pages env (log @ [ChatCompletion (title_request file_name transcript)])
                            \<lparr>page_title = file_name,
                             page_children = page_children_of summary chunks\<rparr>),
                       log @ [ChatCompletion (title_request file_name transcript),
                              CreatePage \<lparr>page_title = file_name,
                                          page_children = page_children_of summary chunks\<rparr>])"
    by (simp add: create_notion_page_def Let_def chunks title)
  show ?thesis
    by (intro exI [of _ chunks] conjI chunks page) (simp add: page reply_value_def)
qed

lemma demo_chunks: "split_text (u ''Hello world.'') 1900 = Some (Inr [u ''Hello world.''])"
  by (simp add: split_text_def u_def)

text \<open>C9 on an example in which the title request is answered with status 500.\<close>

theorem title_failure_uses_file_name_witness:
  "(\<exists>status content.
       openai_chat (demo_audio_env\<lparr>openai_chat := \<lambda>log r. Response 500 None\<rparr>) []
         (title_request (u ''one.mp3'') (u ''Hello world.'')) = Response status content
       \<and> status \<noteq> 200)
   \<and> create_notion_page (demo_audio_env\<lparr>openai_chat := \<lambda>log r. Response 500 None\<rparr>) []
        (u ''one.mp3'') (u ''Hello world.'') (u ''A greeting.'')
       = Some (Inr (u ''page-1''),
               [ChatCompletion (title_request (u ''one.mp3'') (u ''Hello world.'')),
                CreatePage \<lparr>page_title = u ''one.mp3'',
                            page_children = [Heading2 (u ''Summary''), Paragraph (u ''A greeting.''),
                                             Heading2 (u ''Full Transcript''),
                                             Paragraph (u ''Hello world.'')]\<rparr>])"
proof -
  let ?env = "demo_audio_env\<lparr>openai_chat := \<lambda>log r. Response 500 None\<rparr>"
  have failed: "\<exists>status content.
       openai_chat ?env [] (title_request (u ''one.mp3'') (u ''Hello world.''))
         = Response status content \<and> status \<noteq> 200"
    by (simp add: demo_audio_env_def)
  then have hyp: "openai_chat ?env [] (title_request (u ''one.mp3'') (u ''Hello world.'')) = Raises
           \<or> (\<exists>status content.
                 openai_chat ?env [] (title_request (u ''one.mp3'') (u ''Hello world.''))
                   = Response status content \<and> status \<noteq> 200)"
    by blast
  from title_failure_uses_file_name [OF hyp, of "u ''A greeting.''"]
  have "create_notion_page ?env [] (u ''one.mp3'') (u ''Hello world.'') (u ''A greeting.'')
       = Some (Inr (u ''page-1''),
               [ChatCompletion (title_request (u ''one.mp3'') (u ''Hello world.'')),
                CreatePage \<lparr>page_title = u ''one.mp3'',
                            page_children = [Heading2 (u ''Summary''), Paragraph (u ''A greeting.''),
                                             Heading2 (u ''Full Transcript''),
                                             Paragraph (u ''Hello world.'')]\<rparr>])"
    by (simp add: demo_chunks page_children_of_def reply_value_def demo_audio_env_def)
  with failed show ?thesis by blast
qed

text \<open>
  C4. When the transcription, the summary or the page creation of a file raises, the
  first three statements of the round end with that exception; the round then leaves
  the mapping and the list of created pages as they were, and the loop goes on with the
  next file. A round that changes the mapping has created the page before, and it
  changes the entry of this file only, to the hash of the file.
\<close>

theorem failed_file_keeps_entry:
  "(transcribe_audio env (requests st) (path_str p) = Inl e
      \<longrightarrow> (\<exists>log'. page_attempt env (requests st) p = Some (Inl e, log')))
   \<and> (transcribe_audio env (requests st) (path_str p) = Inr t
        \<and> summarize_text env (requests st @ [Transcribe (path_str p)]) t = (Inl e, log2)
      \<longrightarrow> page_attempt env (requests st) p = Some (Inl e, log2))
   \<and> (transcribe_audio env (requests st) (path_str p) = Inr t
        \<and> summarize_text env (requests st @ [Transcribe (path_str p)]) t = (Inr s, log2)
        \<and> create_notion_page env log2 (path_name p) t s = Some (Inl e, log3)
      \<longrightarrow> page_attempt env (requests st) p = Some (Inl e, log3))
   \<and> (page_attempt env (requests st) p = Some (Inl e, log')
      \<longrightarrow> process_file env st p = Some (st\<lparr>requests := log'\<rparr>)
        \<and> files_done (st\<lparr>requests := log'\<rparr>) = files_done st
        \<and> created_pages (st\<lparr>requests := log'\<rparr>) = created_pages st
        \<and> process_loop env st (p # ps) = process_loop env (st\<lparr>requests := log'\<rparr>) ps)
   \<and> (process_file env st p = Some st' \<and> files_done st' \<noteq> files_done st
      \<longrightarrow> (\<exists>page_id log'' h.
            page_attempt env (requests st) p = Some (Inr page_id, log'')
            \<and> get_file_hash env log'' p = Inr h
            \<and> files_done st' = (files_done st)(path_str p \<mapsto> h)
            \<and> created_pages st' = created_pages st @ [page_id]))"
proof (intro conjI impI)
  show "\<exists>log'. page_attempt env (requests st) p = Some (Inl e, log')"
    if "transcribe_audio env (requests st) (path_str p) = Inl e"
    using that by (simp add: page_attempt_def)
  show "page_attempt env (requests st) p = Some (Inl e, log2)"
    if "transcribe_audio env (requests st) (path_str p) = Inr t
        \<and> summarize_text env (requests st @ [Transcribe (path_str p)]) t = (Inl e, log2)"
    using that by (simp add: page_attempt_def)
  show "page_attempt env (requests st) p = Some (Inl e, log3)"
    if "transcribe_audio env (requests st) (path_str p) = Inr t
        \<and> summarize_text env (requests st @ [Transcribe (path_str p)]) t = (Inr s, log2)
        \<and> create_notion_page env log2 (path_name p) t s = Some (Inl e, log3)"
    using that by (simp add: page_attempt_def)
next
  assume failed: "page_attempt env (requests st) p = Some (Inl e, log')"
  then show step: "process_file env st p = Some (st\<lparr>requests := log'\<rparr>)"
    by (simp add: process_file_def)
  show "files_done (st\<lparr>requests := log'\<rparr>) = files_done st" by simp
  show "created_pages (st\<lparr>requests := log'\<rparr>) = created_pages st" by simp
  from step show "process_loop env st (p # ps) = process_loop env (st\<lparr>requests := log'\<rparr>) ps"
    by simp
next
  assume "process_file env st p = Some st' \<and> files_done st' \<noteq> files_done st"
  then show "\<exists>page_id log'' h.
            page_attempt env (requests st) p = Some (Inr page_id, log'')
            \<and> get_file_hash env log'' p = Inr h
            \<and> files_done st' = (files_done st)(path_str p \<mapsto> h)
            \<and> created_pages st' = created_pages st @ [page_id]"
    by (auto simp: process_file_def split: option.splits sum.splits prod.splits)
qed


lemmas page_simps = page_attempt_def summarize_text_def create_notion_page_def demo_chunks
  notion_title_def reply_value_def page_children_of_def demo_audio_env_def one_mp3_def

lemma attempt_transcription_fails:
  "page_attempt (demo_audio_env\<lparr>transcribe_audio := \<lambda>log s. Inl ServiceError\<rparr>) [] one_mp3
     = Some (Inl ServiceError, [Transcribe (u ''/audio/one.mp3'')])"
  by (simp add: page_simps)

lemma attempt_summary_fails:
  "page_attempt (demo_audio_env\<lparr>openai_chat := \<lambda>log r. Raises\<rparr>) [] one_mp3
     = Some (Inl RequestError,
             [Transcribe (u ''/audio/one.mp3''),
              ChatCompletion (summary_request (u ''Hello world.''))])"
  by (simp add: page_simps)

lemma attempt_page_fails:
  "page_attempt (demo_audio_env\<lparr>notion_pages := \<lambda>log page. Response 500 None\<rparr>) [] one_mp3
     = Some (Inl ServiceError,
             demo_round)"
  by (simp add: page_simps Let_def u_def strip_def lstrip_def rstrip_def is_space_def split_text_def
        demo_round_def)

lemma attempt_succeeds:
  "page_attempt demo_audio_env [] one_mp3
     = Some (Inr (u ''page-1''),
             demo_round)"
  by (simp add: page_simps Let_def u_def strip_def lstrip_def rstrip_def is_space_def split_text_def
        demo_round_def)


text \<open>C4 on the example folder: a round in which the transcription raises, one in which
  the summary raises, one in which the page creation raises, and one that succeeds.\<close>

theorem failed_file_keeps_entry_witness:
  "process_file (demo_audio_env\<lparr>transcribe_audio := \<lambda>log s. Inl ServiceError\<rparr>) fresh_run one_mp3
     = Some (fresh_run\<lparr>requests := [Transcribe (u ''/audio/one.mp3'')]\<rparr>)
   \<and> process_file (demo_audio_env\<lparr>openai_chat := \<lambda>log r. Raises\<rparr>) fresh_run one_mp3
     = Some (fresh_run\<lparr>requests := [Transcribe (u ''/audio/one.mp3''),
                ChatCompletion (summary_request (u ''Hello world.''))]\<rparr>)
   \<and> process_file (demo_audio_env\<lparr>notion_pages := \<lambda>log page. Response 500 None\<rparr>) fresh_run
        one_mp3
     = Some (fresh_run\<lparr>requests := demo_round\<rparr>)
   \<and> process_loop (demo_audio_env\<lparr>notion_pages := \<lambda>log page. Response 500 None\<rparr>) fresh_run
        [one_mp3, two_mp3]
     = process_loop (demo_audio_env\<lparr>notion_pages := \<lambda>log page. Response 500 None\<rparr>)
        (fresh_run\<lparr>requests := demo_round\<rparr>) [two_mp3]
   \<and> process_file demo_audio_env fresh_run one_mp3
     = Some \<lparr>files_done = [u ''/audio/one.mp3'' \<mapsto> [49, 50, 51]],
             created_pages = [u ''page-1''], requests = demo_round\<rparr>
   \<and> page_attempt demo_audio_env [] one_mp3 = Some (Inr (u ''page-1''), demo_round)"
proof -
  let ?env_t = "demo_audio_env\<lparr>transcribe_audio := \<lambda>log s. Inl ServiceError\<rparr>"
  let ?env_s = "demo_audio_env\<lparr>openai_chat := \<lambda>log r. Raises\<rparr>"
  let ?env_p = "demo_audio_env\<lparr>notion_pages := \<lambda>log page. Response 500 None\<rparr>"
  let ?log1 = "[Transcribe (u ''/audio/one.mp3'')]"
  let ?log2 = "[Transcribe (u ''/audio/one.mp3''),
                ChatCompletion (summary_request (u ''Hello world.''))]"
  have start [simp]: "requests fresh_run = []" "files_done fresh_run = Map.empty"
    "created_pages fresh_run = []"
    by (simp_all add: fresh_run_def)
  have path [simp]: "path_str one_mp3 = u ''/audio/one.mp3''" "path_name one_mp3 = u ''one.mp3''"
    by (simp_all add: one_mp3_def)

  \<comment> \<open>transcription raises\<close>
  have "transcribe_audio ?env_t (requests fresh_run) (path_str one_mp3) = Inl ServiceError"
    by (simp add: demo_audio_env_def)
  from failed_file_keeps_entry [where env = ?env_t and st = fresh_run and p = one_mp3
      and e = ServiceError, THEN conjunct1, THEN mp, OF this]
  obtain l where "page_attempt ?env_t (requests fresh_run) one_mp3 = Some (Inl ServiceError, l)" ..
  with attempt_transcription_fails
  have "page_attempt ?env_t (requests fresh_run) one_mp3 = Some (Inl ServiceError, ?log1)"
    by simp
  from failed_file_keeps_entry [where env = ?env_t and st = fresh_run and p = one_mp3
      and e = ServiceError and log' = ?log1,
      THEN conjunct2, THEN conjunct2, THEN conjunct2, THEN conjunct1, THEN mp, OF this]
  have r1: "process_file ?env_t fresh_run one_mp3 = Some (fresh_run\<lparr>requests := ?log1\<rparr>)"
    by blast

  \<comment> \<open>the summary raises\<close>
  have "transcribe_audio ?env_s (requests fresh_run) (path_str one_mp3) = Inr (u ''Hello world.'')
        \<and> summarize_text ?env_s (requests fresh_run @ [Transcribe (path_str one_mp3)])
             (u ''Hello world.'') = (Inl RequestError, ?log2)"
    by (simp add: demo_audio_env_def summarize_text_def reply_value_def)
  from failed_file_keeps_entry [where env = ?env_s and st = fresh_run and p = one_mp3
      and e = RequestError and t = "u ''Hello world.''" and ?log2.0 = ?log2,
      THEN conjunct2, THEN conjunct1, THEN mp, OF this]
  have "page_attempt ?env_s (requests fresh_run) one_mp3 = Some (Inl RequestError, ?log2)" .
  from failed_file_keeps_entry [where env = ?env_s and st = fresh_run and p = one_mp3
      and e = RequestError and log' = ?log2,
      THEN conjunct2, THEN conjunct2, THEN conjunct2, THEN conjunct1, THEN mp, OF this]
  have r2: "process_file ?env_s fresh_run one_mp3 = Some (fresh_run\<lparr>requests := ?log2\<rparr>)"
    by blast

  \<comment> \<open>page creation raises\<close>
  have "transcribe_audio ?env_p (requests fresh_run) (path_str one_mp3) = Inr (u ''Hello world.'')
        \<and> summarize_text ?env_p (requests fresh_run @ [Transcribe (path_str one_mp3)])
             (u ''Hello world.'') = (Inr (u ''A greeting''), ?log2)
        \<and> create_notion_page ?env_p ?log2 (path_name one_mp3) (u ''Hello world.'')
             (u ''A greeting'') = Some (Inl ServiceError, demo_round)"
    by (simp add: demo_audio_env_def summarize_text_def reply_value_def create_notion_page_def
          demo_chunks notion_title_def page_children_of_def Let_def demo_round_def)
       (simp add: u_def strip_def lstrip_def rstrip_def is_space_def)
  from failed_file_keeps_entry [where env = ?env_p and st = fresh_run and p = one_mp3
      and e = ServiceError and t = "u ''Hello world.''" and s = "u ''A greeting''"
      and ?log2.0 = ?log2 and ?log3.0 = demo_round,
      THEN conjunct2, THEN conjunct2, THEN conjunct1, THEN mp, OF this]
  have "page_attempt ?env_p (requests fresh_run) one_mp3 = Some (Inl ServiceError, demo_round)" .
  from failed_file_keeps_entry [where env = ?env_p and st = fresh_run and p = one_mp3
      and e = ServiceError and log' = demo_round and ps = "[two_mp3]",
      THEN conjunct2, THEN conjunct2, THEN conjunct2, THEN conjunct1, THEN mp, OF this]
  have r3: "process_file ?env_p fresh_run one_mp3 = Some (fresh_run\<lparr>requests := demo_round\<rparr>)"
    and r4: "process_loop ?env_p fresh_run [one_mp3, two_mp3]
               = process_loop ?env_p (fresh_run\<lparr>requests := demo_round\<rparr>) [two_mp3]"
    by blast+

  \<comment> \<open>everything succeeds\<close>
  have hash: "get_file_hash demo_audio_env demo_round one_mp3 = Inr [49, 50, 51]"
    by (rule get_file_hash_read [where bs = "[1, 2, 3]", THEN trans])
       (simp_all add: demo_audio_env_def)
  have r5: "process_file demo_audio_env fresh_run one_mp3
     = Some \<lparr>files_done = [u ''/audio/one.mp3'' \<mapsto> [49, 50, 51]],
             created_pages = [u ''page-1''], requests = demo_round\<rparr>"
    by (simp add: process_file_def attempt_succeeds hash fresh_run_def)
  then have "process_file demo_audio_env fresh_run one_mp3
       = Some \<lparr>files_done = [u ''/audio/one.mp3'' \<mapsto> [49, 50, 51]],
               created_pages = [u ''page-1''], requests = demo_round\<rparr>
     \<and> files_done \<lparr>files_done = [u ''/audio/one.mp3'' \<mapsto> [49, 50, 51]],
               created_pages = [u ''page-1''], requests = demo_round\<rparr> \<noteq> files_done fresh_run"
    by simp
  from failed_file_keeps_entry [where env = demo_audio_env and st = fresh_run and p = one_mp3,
      THEN conjunct2, THEN conjunct2, THEN conjunct2, THEN conjunct2, THEN mp, OF this]
  obtain page_id l' where "page_attempt demo_audio_env (requests fresh_run) one_mp3
      = Some (Inr page_id, l')" by blast
  with attempt_succeeds
  have r6: "page_attempt demo_audio_env [] one_mp3 = Some (Inr (u ''page-1''), demo_round)"
    by simp
  from r1 r2 r3 r4 r5 r6 show ?thesis by blast
qed

end
